theory Spec2Isabelle
  imports Complex_Main "HOL-Library.Log_Nat" "HOL-Library.Code_Target_Numeral"
begin

section \<open>Python values used by \<^verbatim>\<open>monzo_transactions.py\<close>\<close>

text \<open>
  A Python \<^verbatim>\<open>str\<close> is a sequence of Unicode code points, so it is modelled as a list of
  code points: \<^verbatim>\<open>len\<close> is \<open>length\<close> and the slice \<^verbatim>\<open>s[:18]\<close> is \<open>take 18 s\<close>.
  The literals of the source are written \<open>str ''...''\<close>; the two literals outside ASCII
  are the code points U+2211 (the summation sign) and U+00A3 (the pound sign).
\<close>

type_synonym pystr = "nat list"

definition str :: "string \<Rightarrow> pystr" where
  "str s = map of_char s"

definition sigma_sign :: nat where
  "sigma_sign = 8721"

definition pound_sign :: nat where
  "pound_sign = 163"

datatype py_error = KeyError pystr | ValueError | JSONDecodeError | OverflowError | TypeError

subsection \<open>\<^verbatim>\<open>str.replace\<close>, \<^verbatim>\<open>str.title\<close>, \<^verbatim>\<open>str.capitalize\<close>\<close>

text \<open>
  The case mappings of Python follow the Unicode character database. On ASCII they are
  written out here. The database is not part of this theory: outside ASCII the casedness
  of a character, its titlecase mapping and its lowercase mapping (which may produce
  several characters and, for the capital sigma, looks at the characters around it) are
  the three constants below, about which nothing is known. Whatever is proved therefore
  holds for the mappings that Python really uses.
\<close>

definition unicode_is_cased :: "nat \<Rightarrow> bool" where
  "unicode_is_cased = undefined"

definition unicode_title :: "nat \<Rightarrow> pystr" where
  "unicode_title = undefined"

definition unicode_lower :: "pystr \<Rightarrow> nat \<Rightarrow> pystr" where
  "unicode_lower = undefined"

definition is_upper :: "nat \<Rightarrow> bool" where
  "is_upper c \<longleftrightarrow> 65 \<le> c \<and> c \<le> 90"

definition is_lower :: "nat \<Rightarrow> bool" where
  "is_lower c \<longleftrightarrow> 97 \<le> c \<and> c \<le> 122"

definition to_upper :: "nat \<Rightarrow> nat" where
  "to_upper c = (if is_lower c then c - 32 else c)"

definition to_lower :: "nat \<Rightarrow> nat" where
  "to_lower c = (if is_upper c then c + 32 else c)"

definition is_cased :: "nat \<Rightarrow> bool" where
  "is_cased c = (if c < 128 then is_upper c \<or> is_lower c else unicode_is_cased c)"

text \<open>The titlecase mapping of one character.\<close>

definition title_char :: "nat \<Rightarrow> pystr" where
  "title_char c = (if c < 128 then [to_upper c] else unicode_title c)"

text \<open>The lowercase mapping of the character \<open>c\<close> at position \<open>i\<close> of the string \<open>s\<close>.\<close>

definition lower_char :: "pystr \<Rightarrow> nat \<Rightarrow> nat \<Rightarrow> pystr" where
  "lower_char s i c = (if c < 128 then [to_lower c] else unicode_lower s i)"

text \<open>\<^verbatim>\<open>s.replace(old, new)\<close> for one-character \<^verbatim>\<open>old\<close> and \<^verbatim>\<open>new\<close>.\<close>

definition replace :: "nat \<Rightarrow> nat \<Rightarrow> pystr \<Rightarrow> pystr" where
  "replace old new s = map (\<lambda>c. if c = old then new else c) s"

text \<open>
  \<^verbatim>\<open>s.title()\<close>: a character that follows a cased character is lowercased, any other
  character is titlecased; the flag is the casedness of the character just read.
\<close>

fun title_from :: "pystr \<Rightarrow> bool \<Rightarrow> nat \<Rightarrow> pystr \<Rightarrow> pystr" where
  "title_from s previous_is_cased i [] = []"
| "title_from s previous_is_cased i (c # r) =
     (if previous_is_cased then lower_char s i c else title_char c)
       @ title_from s (is_cased c) (i + 1) r"

definition title :: "pystr \<Rightarrow> pystr" where
  "title s = title_from s False 0 s"

text \<open>\<^verbatim>\<open>s.capitalize()\<close>: the first character titlecased, the rest lowercased.\<close>

definition capitalize :: "pystr \<Rightarrow> pystr" where
  "capitalize s =
     (case s of
        [] \<Rightarrow> []
      | c # r \<Rightarrow> title_char c @ concat (map (\<lambda>i. lower_char s i (s ! i)) [1 ..< length s]))"

subsection \<open>\<^verbatim>\<open>float\<close>\<close>

text \<open>
  A Python \<^verbatim>\<open>float\<close> is an IEEE 754 double: a finite value, which is a rational number,
  the negative zero, an infinity or a NaN. Every arithmetic operation gives the double
  nearest to the exact result, a tie going to the double with the even significand.
\<close>

datatype pyfloat = Finite rat | NegZero | PosInf | NegInf | NaN

text \<open>Rounding to the nearest integer, a tie going to the even neighbour.\<close>

definition round_half_even :: "rat \<Rightarrow> int" where
  "round_half_even x =
     (let f = \<lfloor>x\<rfloor>; r = x - of_int f
      in if r < 1 / 2 then f else if 1 / 2 < r then f + 1 else if even f then f else f + 1)"

text \<open>The integer \<open>k\<close> with \<open>2\<^sup>k \<le> a < 2\<^sup>k\<^sup>+\<^sup>1\<close>, for a positive \<open>a\<close>.\<close>

definition ilog2 :: "rat \<Rightarrow> int" where
  "ilog2 a =
     (let k = bitlen (fst (quotient_of a)) - bitlen (snd (quotient_of a))
      in if 2 powi k \<le> a then k else k - 1)"

text \<open>
  A positive rational rounded to 53 significant bits, or to a multiple of \<open>2\<^sup>-\<^sup>1\<^sup>0\<^sup>7\<^sup>4\<close>
  in the subnormal range.
\<close>

definition double_magnitude :: "rat \<Rightarrow> rat" where
  "double_magnitude a =
     (let e = max (ilog2 a - 52) (- 1074)
      in of_int (round_half_even (a / 2 powi e)) * 2 powi e)"

text \<open>The double nearest to a rational; a magnitude that rounds to \<open>2\<^sup>1\<^sup>0\<^sup>2\<^sup>4\<close> overflows.\<close>

definition round_double :: "rat \<Rightarrow> pyfloat" where
  "round_double q =
     (if q = 0 then Finite 0
      else
        (let v = double_magnitude \<bar>q\<bar>
         in if 2 ^ 1024 \<le> v then (if q < 0 then NegInf else PosInf)
            else if v = 0 then (if q < 0 then NegZero else Finite 0)
            else Finite (if q < 0 then - v else v)))"

text \<open>
  The conversion of an \<^verbatim>\<open>int\<close> operand of a float operation; an integer whose nearest
  double would be infinite raises \<^verbatim>\<open>OverflowError\<close>.
\<close>

definition float_of_int :: "int \<Rightarrow> py_error + pyfloat" where
  "float_of_int i =
     (let x = round_double (of_int i)
      in if x = PosInf \<or> x = NegInf then Inl OverflowError else Inr x)"

text \<open>\<^verbatim>\<open>x / 100.0\<close>\<close>

fun float_div_100 :: "pyfloat \<Rightarrow> pyfloat" where
  "float_div_100 (Finite v) = round_double (v / 100)"
| "float_div_100 x = x"

text \<open>\<^verbatim>\<open>-x\<close>\<close>

fun float_neg :: "pyfloat \<Rightarrow> pyfloat" where
  "float_neg (Finite v) = (if v = 0 then NegZero else Finite (- v))"
| "float_neg NegZero = Finite 0"
| "float_neg PosInf = NegInf"
| "float_neg NegInf = PosInf"
| "float_neg NaN = NaN"

text \<open>\<^verbatim>\<open>x < 0\<close>\<close>

fun float_lt_0 :: "pyfloat \<Rightarrow> bool" where
  "float_lt_0 (Finite v) = (v < 0)"
| "float_lt_0 NegInf = True"
| "float_lt_0 x = False"

text \<open>\<^verbatim>\<open>x + y\<close>\<close>

fun float_add :: "pyfloat \<Rightarrow> pyfloat \<Rightarrow> pyfloat" where
  "float_add NaN y = NaN"
| "float_add x NaN = NaN"
| "float_add PosInf NegInf = NaN"
| "float_add NegInf PosInf = NaN"
| "float_add PosInf y = PosInf"
| "float_add x PosInf = PosInf"
| "float_add NegInf y = NegInf"
| "float_add x NegInf = NegInf"
| "float_add NegZero y = y"
| "float_add x NegZero = x"
| "float_add (Finite x) (Finite y) = round_double (x + y)"

text \<open>
  \<^verbatim>\<open>total = 0\<close> followed by \<^verbatim>\<open>total += x\<close> for every \<open>x\<close> of a list, which is also
  \<^verbatim>\<open>sum\<close> of the list: the integer zero enters the first addition as the double zero.
\<close>

definition float_sum :: "pyfloat list \<Rightarrow> pyfloat" where
  "float_sum xs = fold (\<lambda>x total. float_add total x) xs (Finite 0)"

subsection \<open>\<^verbatim>\<open>str(int)\<close> and the format \<^verbatim>\<open>.2f\<close>\<close>

fun digits :: "nat \<Rightarrow> pystr" where
  "digits n = (if n < 10 then [48 + n] else digits (n div 10) @ [48 + n mod 10])"

declare digits.simps [simp del]

definition str_int :: "int \<Rightarrow> pystr" where
  "str_int i = (if i < 0 then 45 # digits (nat (- i)) else digits (nat i))"

text \<open>
  A rational in fixed notation with two decimals: its sign, then its magnitude rounded
  to hundredths, written with at least one digit before the point and two after it.
\<close>

definition format_fixed2 :: "rat \<Rightarrow> pystr" where
  "format_fixed2 x =
     (let n = nat (round_half_even (\<bar>x\<bar> * 100))
      in (if x < 0 then [45] else []) @ digits (n div 100) @ [46]
           @ [48 + (n mod 100) div 10, 48 + n mod 10])"

text \<open>\<^verbatim>\<open>f'{x:.2f}'\<close>: the exact value of the double in that notation.\<close>

fun format_2f :: "pyfloat \<Rightarrow> pystr" where
  "format_2f (Finite v) = format_fixed2 v"
| "format_2f NegZero = str ''-0.00''"
| "format_2f PosInf = str ''inf''"
| "format_2f NegInf = str ''-inf''"
| "format_2f NaN = str ''nan''"

subsection \<open>\<^verbatim>\<open>dict\<close>: insertion-ordered, keys unique\<close>

type_synonym ('k, 'v) dict = "('k \<times> 'v) list"

text \<open>\<^verbatim>\<open>d[k] = v\<close>: an existing key keeps its position, a new key goes to the end.\<close>

fun dict_set :: "('k, 'v) dict \<Rightarrow> 'k \<Rightarrow> 'v \<Rightarrow> ('k, 'v) dict" where
  "dict_set [] k v = [(k, v)]"
| "dict_set ((k', v') # d) k v =
     (if k' = k then (k, v) # d else (k', v') # dict_set d k v)"

text \<open>\<^verbatim>\<open>d[k]\<close>: the value stored under the key, or \<^verbatim>\<open>KeyError\<close>.\<close>

definition dict_get :: "(pystr, 'v) dict \<Rightarrow> pystr \<Rightarrow> py_error + 'v" where
  "dict_get d k = (case map_of d k of None \<Rightarrow> Inl (KeyError k) | Some v \<Rightarrow> Inr v)"

section \<open>The data model\<close>

text \<open>
  A transaction is one object of the \<^verbatim>\<open>transactions\<close> array of the API response. The
  code reads \<^verbatim>\<open>amount\<close> with \<^verbatim>\<open>transaction['amount']\<close> and the other two fields with
  \<^verbatim>\<open>.get\<close> and a default, so \<open>None\<close> is the absent key. The amount is an integer of any
  size.
\<close>

record transaction =
  tx_amount :: int
  tx_description :: "pystr option"
  tx_category :: "pystr option"

text \<open>The dictionary \<^verbatim>\<open>{'description': ..., 'amount': ...}\<close> stored in a bucket.\<close>

record expense =
  description :: pystr
  amount :: pyfloat

type_synonym categories = "(pystr, expense list) dict"

section \<open>\<^verbatim>\<open>categorize_transactions\<close>\<close>

definition all_categories :: "pystr list" where
  "all_categories =
     [str ''eating_out'', str ''groceries'', str ''bills'', str ''shopping'',
      str ''entertainment'', str ''transport'', str ''uncategorized'']"

text \<open>\<^verbatim>\<open>category.replace('_', ' ').title()\<close>\<close>

definition formatted_category :: "pystr \<Rightarrow> pystr" where
  "formatted_category category = title (replace 95 32 category)"

text \<open>The first loop: every known category gets an empty list.\<close>

definition initial_categories :: categories where
  "initial_categories =
     fold (\<lambda>category categories. dict_set categories (formatted_category category) [])
       all_categories []"

text \<open>
  \<^verbatim>\<open>transaction['amount'] / 100.0\<close>: the integer is converted to a double, which can
  raise, and the double is divided.
\<close>

definition pounds :: "transaction \<Rightarrow> py_error + pyfloat" where
  "pounds transaction =
     (case float_of_int (tx_amount transaction) of
        Inl e \<Rightarrow> Inl e
      | Inr x \<Rightarrow> Inr (float_div_100 x))"

text \<open>\<^verbatim>\<open>transaction.get('category', 'uncategorized').replace('_', ' ').title()\<close>\<close>

definition category_of :: "transaction \<Rightarrow> pystr" where
  "category_of transaction =
     formatted_category
       (case tx_category transaction of None \<Rightarrow> str ''uncategorized'' | Some c \<Rightarrow> c)"

text \<open>
  The dictionary appended for an expense (lines 62 to 65), \<open>pounds_value\<close> being the
  value that line 57 gave to the variable \<^verbatim>\<open>amount\<close>.
\<close>

definition expense_record :: "transaction \<Rightarrow> pyfloat \<Rightarrow> expense" where
  "expense_record transaction pounds_value =
     \<lparr>description =
        take 18 (case tx_description transaction of
                   None \<Rightarrow> str ''No description'' | Some d \<Rightarrow> d),
      amount = float_neg pounds_value\<rparr>"

text \<open>
  The second loop. Line 57 is evaluated for every transaction and ends the run when the
  conversion overflows. The subscription \<^verbatim>\<open>categories[category]\<close> is evaluated only
  under \<^verbatim>\<open>amount < 0\<close>; a missing key raises \<^verbatim>\<open>KeyError\<close> and ends the run.
\<close>

fun categorize_loop :: "categories \<Rightarrow> transaction list \<Rightarrow> py_error + categories" where
  "categorize_loop categories [] = Inr categories"
| "categorize_loop categories (transaction # transactions) =
     (case pounds transaction of
        Inl e \<Rightarrow> Inl e
      | Inr pounds_value \<Rightarrow>
          if float_lt_0 pounds_value then
            (case dict_get categories (category_of transaction) of
               Inl e \<Rightarrow> Inl e
             | Inr bucket \<Rightarrow>
                 categorize_loop
                   (dict_set categories (category_of transaction)
                      (bucket @ [expense_record transaction pounds_value]))
                   transactions)
          else categorize_loop categories transactions)"

definition categorize_transactions :: "transaction list \<Rightarrow> py_error + categories" where
  "categorize_transactions transactions = categorize_loop initial_categories transactions"

text \<open>Quantities the properties below speak about.\<close>

text \<open>The expense that the loop stores for a transaction whose amount converts.\<close>

definition expense_of :: "transaction \<Rightarrow> expense" where
  "expense_of transaction =
     expense_record transaction
       (float_div_100 (round_double (of_int (tx_amount transaction))))"

definition debits_in :: "pystr \<Rightarrow> transaction list \<Rightarrow> transaction list" where
  "debits_in category transactions =
     filter (\<lambda>t. tx_amount t < 0 \<and> category_of t = category) transactions"

text \<open>The keys of the mapping, in the order of the enumeration.\<close>

definition bucket_names :: "pystr list" where
  "bucket_names = map formatted_category all_categories"

text \<open>A debit whose formatted category is none of the keys.\<close>

definition unknown_debit :: "transaction \<Rightarrow> bool" where
  "unknown_debit t \<longleftrightarrow> tx_amount t < 0 \<and> category_of t \<notin> set bucket_names"

text \<open>The exception, if any, that the iteration for one transaction raises.\<close>

definition failure :: "pystr list \<Rightarrow> transaction \<Rightarrow> py_error option" where
  "failure keys t =
     (case pounds t of
        Inl e \<Rightarrow> Some e
      | Inr pounds_value \<Rightarrow>
          if float_lt_0 pounds_value \<and> category_of t \<notin> set keys
          then Some (KeyError (category_of t)) else None)"

fun first_failure :: "pystr list \<Rightarrow> transaction list \<Rightarrow> py_error option" where
  "first_failure keys [] = None"
| "first_failure keys (t # ts) =
     (case failure keys t of Some e \<Rightarrow> Some e | None \<Rightarrow> first_failure keys ts)"

text \<open>The value of a finite double, and the exact sum of the amounts of all buckets.\<close>

fun float_value :: "pyfloat \<Rightarrow> rat" where
  "float_value (Finite v) = v"
| "float_value x = 0"

definition total_expenses :: "categories \<Rightarrow> rat" where
  "total_expenses categories =
     (\<Sum>(category, expenses) \<leftarrow> categories. \<Sum>e \<leftarrow> expenses. float_value (amount e))"

definition count_expenses :: "categories \<Rightarrow> nat" where
  "count_expenses categories = (\<Sum>(category, expenses) \<leftarrow> categories. length expenses)"

text \<open>A list of expenses whose amounts are non-negative finite doubles.\<close>

definition plain_amounts :: "expense list \<Rightarrow> bool" where
  "plain_amounts es \<longleftrightarrow> (\<forall>e \<in> set es. \<exists>v. amount e = Finite v \<and> 0 \<le> v)"

text \<open>The sum of the absolute values of the negative amounts, in pence.\<close>

definition debit_pence :: "transaction list \<Rightarrow> int" where
  "debit_pence transactions =
     (\<Sum>t \<leftarrow> transactions. if tx_amount t < 0 then \<bar>tx_amount t\<bar> else 0)"

subsection \<open>The function on an explicit store\<close>

text \<open>
  The lists and the dictionary that the function builds are objects of the heap, which
  it shares with its caller: the argument is a reference to the list of transactions,
  the result a reference to the new dictionary, whose values are references to the new
  lists. An address is an index of the store; a new object is put at its end.

  The \<^verbatim>\<open>for\<close> loop reads the list of transactions that the argument refers to when the
  loop starts; the body writes to the lists of the buckets only.
\<close>

type_synonym addr = nat

datatype object =
    Transactions "transaction list"
  | Bucket "expense list"
  | Mapping "(pystr \<times> addr) list"

type_synonym store = "object list"

definition allocate :: "object \<Rightarrow> store \<Rightarrow> addr \<times> store" where
  "allocate obj h = (length h, h @ [obj])"

text \<open>\<^verbatim>\<open>categories[formatted_category] = []\<close> for every category of the list.\<close>

fun initialize_store :: "pystr list \<Rightarrow> addr \<Rightarrow> store \<Rightarrow> store" where
  "initialize_store [] categories h = h"
| "initialize_store (category # rest) categories h =
     (case allocate (Bucket []) h of
        (bucket, h') \<Rightarrow>
          initialize_store rest categories
            (case h' ! categories of
               Mapping m \<Rightarrow>
                 h'[categories := Mapping (dict_set m (formatted_category category) bucket)]
             | _ \<Rightarrow> h'))"

text \<open>The second loop; \<^verbatim>\<open>append\<close> changes the list object in place.\<close>

fun loop_store :: "addr \<Rightarrow> transaction list \<Rightarrow> store \<Rightarrow> (py_error + unit) \<times> store" where
  "loop_store categories [] h = (Inr (), h)"
| "loop_store categories (transaction # transactions) h =
     (case pounds transaction of
        Inl e \<Rightarrow> (Inl e, h)
      | Inr pounds_value \<Rightarrow>
          if float_lt_0 pounds_value then
            (case h ! categories of
               Mapping m \<Rightarrow>
                 (case dict_get m (category_of transaction) of
                    Inl e \<Rightarrow> (Inl e, h)
                  | Inr bucket \<Rightarrow>
                      (case h ! bucket of
                         Bucket expenses \<Rightarrow>
                           loop_store categories transactions
                             (h[bucket :=
                                  Bucket (expenses @ [expense_record transaction pounds_value])])
                       | _ \<Rightarrow> (Inl TypeError, h)))
             | _ \<Rightarrow> (Inl TypeError, h))
          else loop_store categories transactions h)"

definition categorize_transactions_store ::
  "addr \<Rightarrow> store \<Rightarrow> (py_error + addr) \<times> store" where
  "categorize_transactions_store transactions h =
     (case allocate (Mapping []) h of
        (categories, h1) \<Rightarrow>
          (let h2 = initialize_store all_categories categories h1
           in case h2 ! transactions of
                Transactions ts \<Rightarrow>
                  (case loop_store categories ts h2 of
                     (Inl e, h3) \<Rightarrow> (Inl e, h3)
                   | (Inr _, h3) \<Rightarrow> (Inr categories, h3))
              | _ \<Rightarrow> (Inl TypeError, h2)))"

text \<open>The bucket contents that a reference to a dictionary stands for.\<close>

definition bucket_contents :: "addr \<Rightarrow> store \<Rightarrow> categories" where
  "bucket_contents categories h =
     (case h ! categories of
        Mapping m \<Rightarrow>
          map (\<lambda>(category, bucket).
                 (category, case h ! bucket of Bucket expenses \<Rightarrow> expenses | _ \<Rightarrow> [])) m
      | _ \<Rightarrow> [])"

section \<open>\<^verbatim>\<open>save_to_excel\<close>\<close>

text \<open>A cell of the sheet: a text or a number. The empty cell is the empty text.\<close>

datatype cell = Text pystr | Number pyfloat

text \<open>The dictionary \<^verbatim>\<open>{'Description': descriptions, 'Amount': amounts}\<close>.\<close>

record category_data =
  Description :: "cell list"
  Amount :: "cell list"

text \<open>
  Lines 82 to 85: one expense is added to \<^verbatim>\<open>descriptions\<close>, \<^verbatim>\<open>amounts\<close> and
  \<^verbatim>\<open>total_for_category\<close>. The totals start as the integer zero, which the first
  addition converts to the double zero.
\<close>

definition add_transaction ::
  "expense \<Rightarrow> cell list \<times> cell list \<times> pyfloat \<Rightarrow> cell list \<times> cell list \<times> pyfloat" where
  "add_transaction transaction =
     (\<lambda>(descriptions, amounts, total_for_category).
        (descriptions @ [Text (description transaction)],
         amounts @ [Number (amount transaction)],
         float_add total_for_category (amount transaction)))"

text \<open>
  Lines 78 to 98 for one category. \<^verbatim>\<open>category_names\<close> is the list of the keys of
  \<^verbatim>\<open>categories\<close>, so the loop visits the items of the dictionary in order and
  \<^verbatim>\<open>categories[category]\<close> is the value of the item.
\<close>

definition category_entry :: "pystr \<times> expense list \<Rightarrow> category_data \<times> pyfloat" where
  "category_entry item =
     (let category = fst item;
          (descriptions, amounts, total_for_category) =
             fold add_transaction (snd item) ([], [], Finite 0)
      in (\<lparr>Description = descriptions @ [Text (sigma_sign # 32 # category)],
           Amount = amounts @ [Text (pound_sign # format_2f total_for_category)]\<rparr>,
          total_for_category))"

text \<open>The first loop of the function: \<^verbatim>\<open>all_data\<close> and \<^verbatim>\<open>total_expenditure\<close>.\<close>

definition add_category ::
  "pystr \<times> expense list \<Rightarrow> category_data list \<times> pyfloat \<Rightarrow>
   category_data list \<times> pyfloat" where
  "add_category item =
     (\<lambda>(all_data, total_expenditure).
        (let (data, total_for_category) = category_entry item
         in (all_data @ [data], float_add total_expenditure total_for_category)))"

definition collect_data :: "categories \<Rightarrow> category_data list \<times> pyfloat" where
  "collect_data categories = fold add_category categories ([], Finite 0)"

definition all_data :: "categories \<Rightarrow> category_data list" where
  "all_data categories = fst (collect_data categories)"

definition total_expenditure :: "categories \<Rightarrow> pyfloat" where
  "total_expenditure categories = snd (collect_data categories)"

text \<open>Lines 101 to 104: two headers for each category.\<close>

definition all_columns :: "categories \<Rightarrow> pystr list" where
  "all_columns categories =
     concat (map (\<lambda>category. [category, pound_sign # 32 # category]) (map fst categories))"

text \<open>\<^verbatim>\<open>max\<close> of a list raises \<^verbatim>\<open>ValueError\<close> on the empty list.\<close>

definition py_max :: "nat list \<Rightarrow> py_error + nat" where
  "py_max xs = (case xs of [] \<Rightarrow> Inl ValueError | x # r \<Rightarrow> Inr (fold max r x))"

definition max_rows :: "categories \<Rightarrow> py_error + nat" where
  "max_rows categories = py_max (map (\<lambda>data. length (Description data)) (all_data categories))"

text \<open>
  A data frame: the column labels and the rows in index order. \<^verbatim>\<open>df.loc[i] = row\<close> with
  a new label \<open>i\<close> adds a row at the end; the labels used here are \<open>0, 1, \<dots>\<close> in turn. A
  row whose length differs from the number of columns raises \<^verbatim>\<open>ValueError\<close>.
\<close>

record dataframe =
  columns :: "pystr list"
  rows :: "cell list list"

definition loc_set :: "dataframe \<Rightarrow> cell list \<Rightarrow> py_error + dataframe" where
  "loc_set df row =
     (if length row = length (columns df) then Inr (df\<lparr>rows := rows df @ [row]\<rparr>)
      else Inl ValueError)"

text \<open>Lines 114 to 120: row \<open>i\<close>, padded to the number of columns.\<close>

definition data_row :: "category_data list \<Rightarrow> nat \<Rightarrow> nat \<Rightarrow> cell list" where
  "data_row data width i =
     (let row =
        concat (map (\<lambda>category_data.
                  [if i < length (Description category_data)
                   then Description category_data ! i else Text [],
                   if i < length (Amount category_data)
                   then Amount category_data ! i else Text []]) data)
      in row @ replicate (width - length row) (Text []))"

fun fill_rows :: "category_data list \<Rightarrow> nat list \<Rightarrow> dataframe \<Rightarrow> py_error + dataframe" where
  "fill_rows data [] df = Inr df"
| "fill_rows data (i # indices) df =
     (case loc_set df (data_row data (length (columns df)) i) of
        Inl e \<Rightarrow> Inl e
      | Inr df' \<Rightarrow> fill_rows data indices df')"

text \<open>
  Line 126. \<^verbatim>\<open>[''] * n\<close> is empty for a negative \<open>n\<close>, as is \<open>replicate\<close> of the
  truncated difference.
\<close>

definition total_row :: "categories \<Rightarrow> cell list" where
  "total_row categories =
     [Text (str ''Total Expenditure''),
      Text (pound_sign # format_2f (total_expenditure categories))]
     @ replicate (length (all_columns categories) - 2) (Text [])"

text \<open>Lines 72 to 127: the data frame that is written to the sheet.\<close>

definition report_grid :: "categories \<Rightarrow> py_error + dataframe" where
  "report_grid categories =
     (case max_rows categories of
        Inl e \<Rightarrow> Inl e
      | Inr n \<Rightarrow>
          (case fill_rows (all_data categories) [0 ..< n]
                  \<lparr>columns = all_columns categories, rows = []\<rparr> of
             Inl e \<Rightarrow> Inl e
           | Inr df \<Rightarrow> loc_set df (total_row categories)))"

section \<open>Effects\<close>

text \<open>
  What a run does to the outside: lines printed, the workbook written by \<^verbatim>\<open>to_excel\<close>,
  the workbook saved again with its column widths, and the request to open the file. A
  procedure yields the effects it had, in order, and either its value or the exception
  that ended it.
\<close>

datatype event =
    Print pystr
  | To_excel pystr pystr dataframe
  | Workbook_save pystr "rat list"
  | Os_system pystr
  | Os_startfile pystr

text \<open>An effect that only prints; the others write or open the workbook file.\<close>

fun is_print :: "event \<Rightarrow> bool" where
  "is_print (Print message) = True"
| "is_print event = False"

type_synonym 'a run = "event list \<times> (py_error + 'a)"

definition then_run :: "'a run \<Rightarrow> ('a \<Rightarrow> 'b run) \<Rightarrow> 'b run" where
  "then_run m f =
     (case m of
        (out, Inl e) \<Rightarrow> (out, Inl e)
      | (out, Inr x) \<Rightarrow> (case f x of (out', r) \<Rightarrow> (out @ out', r)))"

definition open_file :: "pystr \<Rightarrow> pystr \<Rightarrow> unit run" where
  "open_file os_name filepath =
     (if os_name = str ''posix'' then ([Os_system (str ''open '' @ filepath)], Inr ())
      else if os_name = str ''nt'' then ([Os_startfile filepath], Inr ())
      else ([Print (str ''Unable to open the file. Please open it manually.'')], Inr ()))"

definition excel_filename :: pystr where
  "excel_filename = str ''monzo_transactions.xlsx''"

text \<open>Every column gets the width \<^verbatim>\<open>140 / 7\<close>, whatever its cells hold.\<close>

definition save_to_excel :: "pystr \<Rightarrow> categories \<Rightarrow> unit run" where
  "save_to_excel os_name categories =
     (case report_grid categories of
        Inl e \<Rightarrow> ([], Inl e)
      | Inr df \<Rightarrow>
          then_run
            ([To_excel excel_filename (str ''Transactions'') df,
              Workbook_save excel_filename (map (\<lambda>col. 140 / 7) (columns df)),
              Print (str ''Results saved to '' @ [39] @ excel_filename @ [39, 46])],
             Inr ())
            (\<lambda>_. open_file os_name excel_filename))"

section \<open>\<^verbatim>\<open>test_authentication\<close>, \<^verbatim>\<open>fetch_transactions\<close> and \<^verbatim>\<open>main\<close>\<close>

text \<open>
  The response of \<^verbatim>\<open>requests.get\<close> is an input of the model: its status code and what
  \<^verbatim>\<open>response.json()\<close> gives, which is an exception when the body is not JSON. For the
  identity endpoint the body is kept as the text that the f-string prints; for the listing
  endpoint it is the object whose \<^verbatim>\<open>transactions\<close> field is read.
\<close>

record 'j response =
  status_code :: int
  json :: "py_error + 'j"

definition test_authentication :: "pystr response \<Rightarrow> unit run" where
  "test_authentication response =
     (if status_code response = 200 then ([Print (str ''Authentication successful.'')], Inr ())
      else
        (case json response of
           Inl e \<Rightarrow> ([], Inl e)
         | Inr body \<Rightarrow>
             ([Print (str ''Authentication failed with status code: ''
                      @ str_int (status_code response) @ str '', response: '' @ body)],
              Inr ())))"

definition fetch_transactions ::
  "(pystr \<rightharpoonup> transaction list) response \<Rightarrow> transaction list run" where
  "fetch_transactions response =
     (if status_code response = 200 then
        (case json response of
           Inl e \<Rightarrow> ([], Inl e)
         | Inr data \<Rightarrow>
             ([], Inr (case data (str ''transactions'') of
                         None \<Rightarrow> [] | Some transactions \<Rightarrow> transactions)))
      else
        ([Print (str ''Error fetching transactions: '' @ str_int (status_code response))],
         Inr []))"

record environment =
  whoami :: "pystr response"
  listing :: "(pystr \<rightharpoonup> transaction list) response"
  os_name :: pystr

text \<open>The line printed for one category (lines 187 and 188).\<close>

definition category_line :: "pystr \<times> expense list \<Rightarrow> event" where
  "category_line item =
     (let category_total = float_sum (map amount (snd item))
      in Print (capitalize (fst item) @ str '': '' @ [pound_sign] @ format_2f category_total))"

definition main :: "environment \<Rightarrow> unit run" where
  "main env =
     then_run (test_authentication (whoami env)) (\<lambda>_.
     then_run (fetch_transactions (listing env)) (\<lambda>transactions.
       if transactions \<noteq> [] then
         (case categorize_transactions transactions of
            Inl e \<Rightarrow> ([], Inl e)
          | Inr categories \<Rightarrow>
              then_run
                (Print (10 # str ''Total Expenditure by Category (Current Month):'')
                   # map category_line categories,
                 Inr ())
                (\<lambda>_. save_to_excel (os_name env) categories))
       else ([Print (str ''No transactions found.'')], Inr ())))"

section \<open>Example inputs\<close>

text \<open>
  The transactions of the scenarios: a debit in a known category, a credit, a debit in a
  category of the bank that the enumeration lacks, and a debit with a long description.
\<close>

definition coffee_shop :: transaction where
  "coffee_shop = \<lparr>tx_amount = -500, tx_description = Some (str ''Coffee Shop''),
     tx_category = Some (str ''eating_out'')\<rparr>"

definition salary :: transaction where
  "salary = \<lparr>tx_amount = 1200, tx_description = Some (str ''Salary''),
     tx_category = Some (str ''income'')\<rparr>"

definition hotel :: transaction where
  "hotel = \<lparr>tx_amount = -12000, tx_description = Some (str ''Seaside Hotel''),
     tx_category = Some (str ''holidays'')\<rparr>"

definition amazon :: transaction where
  "amazon = \<lparr>tx_amount = -2050, tx_description = Some (str ''Amazon Marketplace Payments UK''),
     tx_category = Some (str ''shopping'')\<rparr>"

text \<open>Two debits of one category.\<close>

definition tesco :: transaction where
  "tesco = \<lparr>tx_amount = -250, tx_description = Some (str ''Tesco''),
     tx_category = Some (str ''groceries'')\<rparr>"

definition sainsburys :: transaction where
  "sainsburys = \<lparr>tx_amount = -1050, tx_description = Some (str ''Sainsburys''),
     tx_category = Some (str ''groceries'')\<rparr>"

text \<open>
  A debit of 100000000000000001 pence, a credit of \<open>2\<^sup>1\<^sup>0\<^sup>2\<^sup>4\<close> pence, and two debits of
  \<open>2\<^sup>5\<^sup>3\<close> pounds and of one pound.
\<close>

definition large_debit :: transaction where
  "large_debit = \<lparr>tx_amount = - 100000000000000001, tx_description = Some (str ''Yacht''),
     tx_category = Some (str ''shopping'')\<rparr>"


section \<open>Facts about the Python values\<close>

lemmas string_defs = str_def formatted_category_def title_def replace_def to_upper_def
  to_lower_def is_cased_def is_lower_def is_upper_def title_char_def lower_char_def

lemmas example_defs = coffee_shop_def salary_def hotel_def amazon_def tesco_def
  sainsburys_def

lemma map_of_dict_set: "map_of (dict_set d k v) = (map_of d)(k \<mapsto> v)"
  by (induction d) (auto simp: fun_eq_iff)

lemma keys_dict_set: "map_of d k = Some v' \<Longrightarrow> map fst (dict_set d k v) = map fst d"
  by (induction d) (auto split: if_splits)

lemma dict_set_as_map:
  "distinct (map fst d) \<Longrightarrow> map_of d k = Some v' \<Longrightarrow>
   dict_set d k v = map (\<lambda>(c, x). (c, if c = k then v else x)) d"
proof (induction d)
  case Nil
  then show ?case by simp
next
  case (Cons p d)
  obtain c x where p: "p = (c, x)" by (cases p)
  show ?case
  proof (cases "c = k")
    case True
    with Cons.prems p have "k \<notin> fst ` set d" by auto
    then have "map (\<lambda>(c, x). (c, if c = k then v else x)) d = d"
      by (induction d) auto
    with True p show ?thesis by simp
  next
    case False
    with Cons p show ?thesis by simp
  qed
qed

lemma dict_get_Inr: "dict_get d k = Inr v \<longleftrightarrow> map_of d k = Some v"
  by (simp add: dict_get_def split: option.splits)

lemma dict_get_Inl: "dict_get d k = Inl e \<longleftrightarrow> map_of d k = None \<and> e = KeyError k"
  by (auto simp: dict_get_def split: option.splits)

lemma digits_small: "n < 10 \<Longrightarrow> digits n = [48 + n]"
  by (simp add: digits.simps)

lemma digits_large: "10 \<le> n \<Longrightarrow> digits n = digits (n div 10) @ [48 + n mod 10]"
  by (subst digits.simps) simp

lemma str_int_500: "str_int 500 = str ''500''"
  by (simp add: str_int_def digits_small digits_large str_def)

subsection \<open>Rounding\<close>

lemma round_half_even_error: "\<bar>of_int (round_half_even x) - x\<bar> \<le> 1 / 2"
proof -
  have "of_int \<lfloor>x\<rfloor> \<le> x" "x < of_int \<lfloor>x\<rfloor> + 1" by linarith+
  then show ?thesis unfolding round_half_even_def Let_def by (auto simp: abs_le_iff)
qed

lemma round_half_even_of_int [simp]: "round_half_even (of_int k) = k"
  by (simp add: round_half_even_def)

lemma round_half_even_ge: "of_int n \<le> x \<Longrightarrow> n \<le> round_half_even x"
proof -
  assume "of_int n \<le> x"
  then have "n \<le> \<lfloor>x\<rfloor>" by (simp add: le_floor_iff)
  then show ?thesis unfolding round_half_even_def Let_def by auto
qed

lemma powi_nat: "0 \<le> k \<Longrightarrow> (2::rat) powi k = 2 ^ nat k"
  by (simp add: power_int_def)

lemma powi_pos [simp]: "0 < (2::rat) powi k"
  by (simp add: power_int_def)

lemma powi_mono: "j \<le> k \<Longrightarrow> (2::rat) powi j \<le> 2 powi k"
  by (rule power_int_increasing) simp_all

lemma powi_less_cancel: "(2::rat) powi j < 2 powi k \<Longrightarrow> j < k"
  using powi_mono [of k j] by (cases "j < k") simp_all

lemma ilog2_bounds:
  assumes "0 < a"
  shows "2 powi ilog2 a \<le> a" and "a < 2 powi (ilog2 a + 1)"
proof -
  obtain n d where nd: "quotient_of a = (n, d)" by (cases "quotient_of a")
  then have d: "0 < d" and a: "a = of_int n / of_int d"
    using quotient_of_denom_pos quotient_of_div by blast+
  with assms have n: "0 < n" by (simp add: zero_less_divide_iff)
  define bn bd where "bn = bitlen n" and "bd = bitlen d"
  have b1: "1 \<le> bn" "1 \<le> bd"
    using n d bitlen_eq_zero_iff [of n] bitlen_eq_zero_iff [of d] bitlen_nonneg [of n]
      bitlen_nonneg [of d] by (auto simp: bn_def bd_def)
  have "2 ^ nat (bn - 1) \<le> n" "n < 2 ^ nat bn" "2 ^ nat (bd - 1) \<le> d" "d < 2 ^ nat bd"
    using bitlen_bounds [OF n] bitlen_bounds [OF d] by (simp_all add: bn_def bd_def)
  then have "rat_of_int (2 ^ nat (bn - 1)) \<le> of_int n" "rat_of_int n < of_int (2 ^ nat bn)"
    "rat_of_int (2 ^ nat (bd - 1)) \<le> of_int d" "rat_of_int d < of_int (2 ^ nat bd)"
    by (simp_all only: of_int_le_iff of_int_less_iff)
  then have n_lo: "2 powi (bn - 1) \<le> rat_of_int n" and n_hi: "rat_of_int n < 2 powi bn"
    and d_lo: "2 powi (bd - 1) \<le> rat_of_int d" and d_hi: "rat_of_int d < 2 powi bd"
    using b1 by (simp_all add: powi_nat)
  have dpos: "0 < rat_of_int d" using d by simp
  have "a < 2 powi bn / of_int d"
    unfolding a using n_hi dpos by (simp add: divide_strict_right_mono)
  also have "\<dots> \<le> 2 powi bn / 2 powi (bd - 1)"
    using d_lo by (simp add: frac_le)
  also have "\<dots> = 2 powi (bn - bd + 1)"
    by (simp add: power_int_diff [symmetric] algebra_simps)
  finally have up: "a < 2 powi (bn - bd + 1)" .
  have "2 powi (bn - bd - 1) = 2 powi (bn - 1) / (2::rat) powi bd"
    by (simp add: power_int_diff [symmetric] algebra_simps)
  also have "\<dots> \<le> of_int n / 2 powi bd"
    using n_lo by (simp add: divide_right_mono)
  also have "\<dots> \<le> a"
    unfolding a using d_hi dpos n by (simp add: frac_le)
  finally have lo: "2 powi (bn - bd - 1) \<le> a" .
  have k: "ilog2 a = (if 2 powi (bn - bd) \<le> a then bn - bd else bn - bd - 1)"
    by (simp add: ilog2_def nd bn_def bd_def Let_def)
  show "2 powi ilog2 a \<le> a" using lo by (simp add: k)
  show "a < 2 powi (ilog2 a + 1)" using up by (auto simp: k)
qed

lemma ilog2_less: "0 < a \<Longrightarrow> a < 2 powi p \<Longrightarrow> ilog2 a < p"
  using ilog2_bounds(1) [of a] powi_less_cancel [of "ilog2 a" p] by simp

lemma ilog2_ge: "0 < a \<Longrightarrow> 2 powi j \<le> a \<Longrightarrow> j \<le> ilog2 a"
  using ilog2_bounds(2) [of a] powi_less_cancel [of j "ilog2 a + 1"] by simp

lemma ilog2_unique: "2 powi k \<le> a \<Longrightarrow> a < 2 powi (k + 1) \<Longrightarrow> ilog2 a = k"
proof -
  assume lo: "2 powi k \<le> a" and hi: "a < 2 powi (k + 1)"
  have "0 < a" using lo powi_pos [of k] by linarith
  from ilog2_less [OF this hi] ilog2_ge [OF this lo] show ?thesis by simp
qed

lemma double_magnitude_nonneg: "0 \<le> a \<Longrightarrow> 0 \<le> double_magnitude a"
proof -
  assume "0 \<le> a"
  then have "rat_of_int 0 \<le> a / 2 powi max (ilog2 a - 52) (- 1074)" by simp
  from round_half_even_ge [OF this] show ?thesis
    by (simp add: double_magnitude_def Let_def)
qed

lemma double_magnitude_error:
  "\<bar>double_magnitude a - a\<bar> \<le> 2 powi max (ilog2 a - 52) (- 1074) / 2"
proof -
  define e where "e = max (ilog2 a - 52) (- 1074)"
  define m :: rat where "m = of_int (round_half_even (a / 2 powi e))"
  have "\<bar>m - a / 2 powi e\<bar> \<le> 1 / 2"
    unfolding m_def by (rule round_half_even_error)
  then have "\<bar>m - a / 2 powi e\<bar> * 2 powi e \<le> 1 / 2 * 2 powi e"
    by (rule mult_right_mono) simp
  moreover have "\<bar>m - a / 2 powi e\<bar> * 2 powi e = \<bar>(m - a / 2 powi e) * 2 powi e\<bar>"
    by (simp add: abs_mult)
  moreover have "(m - a / 2 powi e) * 2 powi e = m * 2 powi e - a"
    by (simp add: left_diff_distrib)
  ultimately have "\<bar>m * 2 powi e - a\<bar> \<le> 2 powi e / 2" by simp
  then show ?thesis
    unfolding double_magnitude_def Let_def e_def [symmetric] m_def [symmetric] .
qed

lemma double_magnitude_close:
  assumes "0 < a" and "a < 2 ^ 30"
  shows "\<bar>double_magnitude a - a\<bar> \<le> 1 / 2 ^ 24"
proof -
  have "a < 2 powi 30" using assms(2) by simp
  from ilog2_less [OF assms(1) this] have "max (ilog2 a - 52) (- 1074) \<le> - 23" by simp
  then have "(2::rat) powi max (ilog2 a - 52) (- 1074) \<le> 2 powi (- 23)" by (rule powi_mono)
  with double_magnitude_error [of a] show ?thesis by simp
qed

lemma double_magnitude_lower:
  assumes "2 powi j \<le> a" and "- 1022 \<le> j"
  shows "2 powi j \<le> double_magnitude a"
proof -
  have pos: "0 < a" using assms(1) powi_pos [of j] by linarith
  define k where "k = ilog2 a"
  have jk: "j \<le> k" unfolding k_def using pos assms(1) by (rule ilog2_ge)
  then have e: "max (k - 52) (- 1074) = k - 52" using assms(2) by simp
  have "2 powi k \<le> a" unfolding k_def using pos by (rule ilog2_bounds)
  then have "2 powi k / 2 powi (k - 52) \<le> a / 2 powi (k - 52)"
    by (simp add: divide_right_mono)
  moreover have "(2::rat) powi k / 2 powi (k - 52) = of_int (2 ^ 52)"
    by (simp add: power_int_diff [symmetric])
  ultimately have "2 ^ 52 \<le> round_half_even (a / 2 powi (k - 52))"
    using round_half_even_ge [of "2 ^ 52" "a / 2 powi (k - 52)"] by simp
  then have "rat_of_int (2 ^ 52) \<le> of_int (round_half_even (a / 2 powi (k - 52)))"
    by (simp only: of_int_le_iff)
  then have "of_int (2 ^ 52) * 2 powi (k - 52) \<le> double_magnitude a"
    by (simp add: double_magnitude_def Let_def k_def [symmetric] e)
  moreover have "rat_of_int (2 ^ 52) * 2 powi (k - 52) = 2 powi k"
  proof -
    have "(2::rat) powi 52 * 2 powi (k - 52) = 2 powi (52 + (k - 52))"
      by (rule power_int_add [symmetric]) simp
    then show ?thesis by simp
  qed
  ultimately have "2 powi k \<le> double_magnitude a" by simp
  with powi_mono [OF jk] show ?thesis by linarith
qed

lemma double_magnitude_exact:
  assumes "0 < m" and "m < 2 ^ 53" and "- 1074 \<le> e"
  shows "double_magnitude (of_int m * 2 powi e) = of_int m * 2 powi e"
proof -
  define a :: rat where "a = of_int m * 2 powi e"
  have pos: "0 < a" using assms(1) by (simp add: a_def)
  have "rat_of_int m < of_int (2 ^ 53)" using assms(2) by (simp only: of_int_less_iff)
  then have "a < 2 powi 53 * 2 powi e" by (simp add: a_def)
  also have "\<dots> = 2 powi (53 + e)" by (rule power_int_add [symmetric]) simp
  finally have "ilog2 a < 53 + e" using pos by (intro ilog2_less)
  then have le: "max (ilog2 a - 52) (- 1074) \<le> e" using assms(3) by simp
  define e' where "e' = max (ilog2 a - 52) (- 1074)"
  have "(2::rat) powi e / 2 powi e' = 2 powi (e - e')"
    by (simp add: power_int_diff)
  also have "\<dots> = of_int (2 ^ nat (e - e'))"
    using le by (simp add: powi_nat e'_def)
  finally have ratio: "(2::rat) powi e / 2 powi e' = of_int (2 ^ nat (e - e'))" .
  have "a / 2 powi e' = of_int m * (2 powi e / 2 powi e')"
    by (simp add: a_def)
  then have "a / 2 powi e' = of_int (m * 2 ^ nat (e - e'))"
    unfolding ratio by simp
  then have "of_int (round_half_even (a / 2 powi e')) * 2 powi e' = a / 2 powi e' * 2 powi e'"
    by (simp del: of_int_mult of_int_power)
  then show ?thesis
    by (simp add: double_magnitude_def Let_def a_def [symmetric] e'_def [symmetric])
qed

lemma round_double_pos:
  "0 < q \<Longrightarrow> round_double q =
     (if 2 ^ 1024 \<le> double_magnitude q then PosInf else Finite (double_magnitude q))"
  by (simp add: round_double_def Let_def)

lemma round_double_neg:
  "q < 0 \<Longrightarrow> round_double q =
     (if 2 ^ 1024 \<le> double_magnitude (- q) then NegInf
      else if double_magnitude (- q) = 0 then NegZero
      else Finite (- double_magnitude (- q)))"
  by (simp add: round_double_def Let_def)

lemma round_double_of_int:
  assumes "\<bar>i\<bar> < 2 ^ 53"
  shows "round_double (of_int i) = Finite (of_int i)"
proof -
  have exact: "double_magnitude (of_int m) = of_int m" if "0 < m" "m < 2 ^ 53" for m
    using double_magnitude_exact [OF that, of 0] by simp
  have small: "rat_of_int m < 2 ^ 1024" if "m < 2 ^ 53" for m
  proof -
    from that have "rat_of_int m < of_int (2 ^ 53)" by (simp only: of_int_less_iff)
    also have "\<dots> < 2 ^ 1024" by simp
    finally show ?thesis .
  qed
  consider "i = 0" | "0 < i" | "i < 0" by linarith
  then show ?thesis
  proof cases
    case 1
    then show ?thesis by (simp add: round_double_def)
  next
    case 2
    with assms have "i < 2 ^ 53" by simp
    with 2 exact [of i] small [of i] show ?thesis by (simp add: round_double_pos)
  next
    case 3
    with assms have "0 < - i" "- i < 2 ^ 53" by simp_all
    with 3 exact [of "- i"] small [of "- i"] show ?thesis
      by (simp add: round_double_neg)
  qed
qed

lemma round_half_even_near:
  assumes "\<bar>x - of_int k\<bar> < 1 / 2"
  shows "round_half_even x = k"
proof -
  from assms have "of_int k - 1 / 2 < x" "x < of_int k + 1 / 2" by linarith+
  then have cases: "\<lfloor>x\<rfloor> = k \<and> x - of_int k < 1 / 2 \<or> \<lfloor>x\<rfloor> = k - 1 \<and> 1 / 2 < x - of_int (k - 1)"
    by (cases "of_int k \<le> x") (auto simp: floor_eq_iff)
  then show ?thesis
    unfolding round_half_even_def Let_def by auto
qed

lemma round_double_close:
  assumes "0 \<le> q" and "q < 2 ^ 30"
  shows "\<exists>r. round_double q = Finite r \<and> 0 \<le> r \<and> \<bar>r - q\<bar> \<le> 1 / 2 ^ 24"
proof (cases "q = 0")
  case True
  then show ?thesis by (simp add: round_double_def)
next
  case False
  with assms(1) have pos: "0 < q" by simp
  have close: "\<bar>double_magnitude q - q\<bar> \<le> 1 / 2 ^ 24"
    using pos assms(2) by (rule double_magnitude_close)
  moreover have "(1::rat) / 2 ^ 24 \<le> 1" by simp
  ultimately have "double_magnitude q \<le> q + 1" by linarith
  with assms(2) have "double_magnitude q < 2 ^ 30 + 1" by simp
  also have "\<dots> < (2::rat) ^ 1024" by simp
  finally have "\<not> 2 ^ 1024 \<le> double_magnitude q" by simp
  with pos close double_magnitude_nonneg [of q] show ?thesis
    by (simp add: round_double_pos)
qed

lemma round_double_numeral [simp]:
  "numeral k < (2::int) ^ 53 \<Longrightarrow> round_double (numeral k) = Finite (numeral k)"
  using round_double_of_int [of "numeral k"] by simp

lemma round_double_neg_numeral [simp]:
  "numeral k < (2::int) ^ 53 \<Longrightarrow> round_double (- numeral k) = Finite (- numeral k)"
  using round_double_of_int [of "- numeral k"] by simp

lemma round_double_halves:
  assumes "\<bar>i\<bar> < 2 ^ 53" and "i \<noteq> 0"
  shows "round_double (of_int i / 2) = Finite (of_int i / 2)"
proof -
  have exact: "double_magnitude (of_int m / 2) = of_int m / 2" if "0 < m" "m < 2 ^ 53" for m
    using double_magnitude_exact [OF that, of "- 1"] by simp
  have small: "rat_of_int m / 2 < 2 ^ 1024" if "m < 2 ^ 53" for m
  proof -
    from that have "rat_of_int m < of_int (2 ^ 53)" by (simp only: of_int_less_iff)
    then have "rat_of_int m / 2 < 2 ^ 53" by simp
    also have "\<dots> < (2::rat) ^ 1024" by simp
    finally show ?thesis .
  qed
  consider "0 < i" | "i < 0" using assms(2) by linarith
  then show ?thesis
  proof cases
    case 1
    with assms have "i < 2 ^ 53" by simp
    with 1 exact [of i] small [of i] show ?thesis by (simp add: round_double_pos)
  next
    case 2
    with assms have "0 < - i" "- i < 2 ^ 53" by simp_all
    with 2 exact [of "- i"] small [of "- i"] show ?thesis
      by (simp add: round_double_neg)
  qed
qed

lemma round_double_half_numerals [simp]:
  "numeral k < (2::int) ^ 53 \<Longrightarrow> round_double (numeral k / 2) = Finite (numeral k / 2)"
  "numeral k < (2::int) ^ 53 \<Longrightarrow> round_double (- (numeral k / 2)) = Finite (- (numeral k / 2))"
  using round_double_halves [of "numeral k"] round_double_halves [of "- numeral k"]
  by simp_all

subsection \<open>The conversion and the quotient\<close>

lemma float_of_int_small: "\<bar>i\<bar> < 2 ^ 53 \<Longrightarrow> float_of_int i = Inr (Finite (of_int i))"
  by (simp add: float_of_int_def round_double_of_int)

lemma float_of_int_numeral [simp]:
  "numeral k < (2::int) ^ 53 \<Longrightarrow> float_of_int (numeral k) = Inr (Finite (numeral k))"
  "numeral k < (2::int) ^ 53 \<Longrightarrow> float_of_int (- numeral k) = Inr (Finite (- numeral k))"
  using float_of_int_small [of "numeral k"] float_of_int_small [of "- numeral k"]
  by simp_all

lemma float_of_int_error: "float_of_int i = Inl e \<Longrightarrow> e = OverflowError"
  by (simp add: float_of_int_def Let_def split: if_splits)

lemma float_of_int_sign:
  assumes "float_of_int i = Inr x"
  shows "(0 < i \<longrightarrow> (\<exists>v. x = Finite v \<and> 1 \<le> v)) \<and>
         (i < 0 \<longrightarrow> (\<exists>v. x = Finite v \<and> v \<le> - 1)) \<and>
         (i = 0 \<longrightarrow> x = Finite 0)"
proof -
  from assms have x: "x = round_double (of_int i)" and fin: "x \<noteq> PosInf" "x \<noteq> NegInf"
    by (auto simp: float_of_int_def Let_def split: if_splits)
  have lower: "1 \<le> double_magnitude (of_int m)" if "0 < m" for m
  proof -
    from that have "1 \<le> m" by simp
    then have "rat_of_int 1 \<le> of_int m" by (simp only: of_int_le_iff)
    then have "2 powi 0 \<le> rat_of_int m" by simp
    from double_magnitude_lower [OF this] show ?thesis by simp
  qed
  show ?thesis
  proof (intro conjI impI)
    assume "0 < i"
    with lower [of i] x fin show "\<exists>v. x = Finite v \<and> 1 \<le> v"
      by (auto simp: round_double_pos split: if_splits)
  next
    assume neg: "i < 0"
    then have "0 < - i" by simp
    from lower [OF this] x fin neg show "\<exists>v. x = Finite v \<and> v \<le> - 1"
      by (auto simp: round_double_neg split: if_splits)
  next
    assume "i = 0"
    with x show "x = Finite 0" by (simp add: round_double_def)
  qed
qed

lemma float_div_100_negative: "v \<le> - 1 \<Longrightarrow> float_lt_0 (float_div_100 (Finite v))"
proof -
  assume v: "v \<le> - 1"
  then have "1 / 100 \<le> - v / 100" by simp
  moreover have "(2::rat) powi (- 7) \<le> 1 / 100" by simp
  ultimately have "2 powi (- 7) \<le> - (v / 100)" by simp
  from double_magnitude_lower [OF this] have "0 < double_magnitude (- (v / 100))"
    using powi_pos [of "- 7"] by linarith
  with v show ?thesis by (simp add: round_double_neg)
qed

lemma float_div_100_non_negative: "0 \<le> v \<Longrightarrow> \<not> float_lt_0 (float_div_100 (Finite v))"
proof (cases "v = 0")
  case True
  then show ?thesis by (simp add: round_double_def)
next
  case False
  assume "0 \<le> v"
  with False have "0 < v / 100" by simp
  with double_magnitude_nonneg [of "v / 100"] show ?thesis
    by (simp add: round_double_pos)
qed

lemma pounds_value:
  "pounds t = Inr x \<Longrightarrow> x = float_div_100 (round_double (of_int (tx_amount t)))"
  by (auto simp: pounds_def float_of_int_def Let_def split: sum.splits if_splits)


lemma pounds_neg: "pounds t = Inr x \<Longrightarrow> float_lt_0 x \<longleftrightarrow> tx_amount t < 0"
proof -
  assume "pounds t = Inr x"
  then obtain y where y: "float_of_int (tx_amount t) = Inr y" and x: "x = float_div_100 y"
    by (auto simp: pounds_def split: sum.splits)
  from float_of_int_sign [OF y] consider
    v where "0 < tx_amount t" "y = Finite v" "1 \<le> v"
    | v where "tx_amount t < 0" "y = Finite v" "v \<le> - 1"
    | "tx_amount t = 0" "y = Finite 0"
    by (cases "tx_amount t" "0::int" rule: linorder_cases) auto
  then show ?thesis
  proof cases
    case 1
    then show ?thesis using float_div_100_non_negative [of v] x by simp
  next
    case 2
    then show ?thesis using float_div_100_negative [of v] x by simp
  next
    case 3
    then show ?thesis using float_div_100_non_negative [of 0] x by simp
  qed
qed

lemma expense_record_pounds: "pounds t = Inr x \<Longrightarrow> expense_record t x = expense_of t"
  by (drule pounds_value) (simp add: expense_of_def)

subsection \<open>The format\<close>

lemma format_fixed2_hundredths:
  "format_fixed2 (of_int k / 100) =
     (if k < 0 then [45] else []) @ digits (nat \<bar>k\<bar> div 100)
       @ [46, 48 + (nat \<bar>k\<bar> mod 100) div 10, 48 + nat \<bar>k\<bar> mod 10]"
proof -
  have magnitude: "\<bar>rat_of_int k / 100\<bar> * 100 = of_int \<bar>k\<bar>" by simp
  have negative: "rat_of_int k / 100 < 0 \<longleftrightarrow> k < 0" by (simp add: divide_less_0_iff)
  show ?thesis
    unfolding format_fixed2_def magnitude negative round_half_even_of_int Let_def by simp
qed

lemma format_fixed2_near:
  assumes "0 \<le> r" and "0 \<le> k" and "\<bar>r - of_int k / 100\<bar> < 1 / 200"
  shows "format_fixed2 r = format_fixed2 (of_int k / 100)"
proof -
  from assms(3) have "\<bar>r * 100 - of_int k\<bar> < 1 / 2" by linarith
  then have "round_half_even (r * 100) = k" by (rule round_half_even_near)
  moreover have "\<bar>rat_of_int k / 100\<bar> * 100 = of_int k" using assms(2) by simp
  moreover have "\<not> rat_of_int k / 100 < 0" using assms(2) by (simp add: divide_less_0_iff)
  ultimately show ?thesis
    using assms(1) by (simp add: format_fixed2_def Let_def)
qed


lemma format_0: "format_fixed2 0 = str ''0.00''"
  using format_fixed2_hundredths [of 0] by (simp add: digits_small str_def)

section \<open>Properties of \<^verbatim>\<open>categorize_transactions\<close>\<close>

lemma bucket_names_eq:
  "bucket_names = [str ''Eating Out'', str ''Groceries'', str ''Bills'', str ''Shopping'',
     str ''Entertainment'', str ''Transport'', str ''Uncategorized'']"
  by (simp add: bucket_names_def all_categories_def string_defs)

lemma initial_categories_eq: "initial_categories = map (\<lambda>c. (c, [])) bucket_names"
  by (simp add: initial_categories_def bucket_names_def all_categories_def string_defs)

lemma distinct_bucket_names: "distinct bucket_names"
  by (simp add: bucket_names_eq str_def)

lemma keys_initial_categories: "map fst initial_categories = bucket_names"
  by (simp add: initial_categories_eq comp_def)

lemmas categorize_defs = categorize_transactions_def initial_categories_eq bucket_names_eq
  dict_get_def pounds_def category_of_def expense_record_def string_defs



lemma failure_cases:
  "failure keys t = Some e \<Longrightarrow>
   float_of_int (tx_amount t) = Inl OverflowError \<and> e = OverflowError \<or>
   tx_amount t < 0 \<and> category_of t \<notin> set keys \<and> e = KeyError (category_of t)"
  by (auto simp: failure_def pounds_def pounds_neg dest: float_of_int_error
      split: sum.splits if_splits)

lemma failure_unknown_debit:
  "tx_amount t < 0 \<Longrightarrow> category_of t \<notin> set keys \<Longrightarrow> failure keys t \<noteq> None"
  by (auto simp: failure_def pounds_neg split: sum.splits)

lemma first_failure_Some:
  "first_failure keys ts = Some e \<Longrightarrow> \<exists>t \<in> set ts. failure keys t = Some e"
  by (induction ts) (auto split: option.splits)

lemma first_failure_None:
  "first_failure keys ts = None \<longleftrightarrow> (\<forall>t \<in> set ts. failure keys t = None)"
  by (induction ts) (auto split: option.splits)

text \<open>
  The outcome of the loop in closed form: the first transaction whose iteration raises
  ends the run with its exception; without one, every bucket has gained the expenses of
  its debits in input order.
\<close>

lemma categorize_loop_result:
  "distinct (map fst cats) \<Longrightarrow>
   categorize_loop cats ts =
     (case first_failure (map fst cats) ts of
        Some e \<Rightarrow> Inl e
      | None \<Rightarrow> Inr (map (\<lambda>(c, es). (c, es @ map expense_of (debits_in c ts))) cats))"
proof (induction ts arbitrary: cats)
  case Nil
  then show ?case by (simp add: debits_in_def)
next
  case (Cons t ts)
  let ?k = "category_of t"
  show ?case
  proof (cases "pounds t")
    case (Inl e)
    then show ?thesis by (simp add: failure_def)
  next
    case (Inr x)
    note sign = pounds_neg [OF Inr]
    note stored = expense_record_pounds [OF Inr]
    show ?thesis
    proof (cases "tx_amount t < 0")
      case False
      with Inr sign Cons show ?thesis
        by (simp add: failure_def debits_in_def split: option.splits)
    next
      case debit: True
      show ?thesis
      proof (cases "map_of cats ?k")
        case None
        then have "?k \<notin> set (map fst cats)" by (simp add: map_of_eq_None_iff)
        with debit None Inr sign show ?thesis by (simp add: dict_get_def failure_def)
      next
        case (Some es)
        then have known: "?k \<in> set (map fst cats)"
          by (metis map_of_eq_None_iff option.distinct(1) set_map)
        let ?cats = "dict_set cats ?k (es @ [expense_of t])"
        have keys: "map fst ?cats = map fst cats"
          using Some by (rule keys_dict_set)
        have shape: "?cats = map (\<lambda>(c, x). (c, if c = ?k then es @ [expense_of t] else x)) cats"
          using Cons.prems Some by (rule dict_set_as_map)
        have same: "\<And>c x. (c, x) \<in> set cats \<Longrightarrow> c = ?k \<Longrightarrow> x = es"
          using Some Cons.prems by (auto dest: map_of_SomeD simp: eq_key_imp_eq_value)
        have buckets: "map (\<lambda>(c, es). (c, es @ map expense_of (debits_in c ts))) ?cats =
            map (\<lambda>(c, es). (c, es @ map expense_of (debits_in c (t # ts)))) cats"
          unfolding shape using debit same by (auto simp: debits_in_def)
        have "categorize_loop cats (t # ts) = categorize_loop ?cats ts"
          using debit Some Inr sign stored by (simp add: dict_get_def)
        also have "\<dots> =
            (case first_failure (map fst cats) ts of
               Some e \<Rightarrow> Inl e
             | None \<Rightarrow>
                 Inr (map (\<lambda>(c, es). (c, es @ map expense_of (debits_in c (t # ts)))) cats))"
          using Cons.IH [of ?cats] Cons.prems keys buckets by (simp split: option.splits)
        finally show ?thesis using debit known Inr sign by (simp add: failure_def)
      qed
    qed
  qed
qed

lemma categorize_transactions_result:
  "categorize_transactions ts =
     (case first_failure bucket_names ts of
        Some e \<Rightarrow> Inl e
      | None \<Rightarrow> Inr (map (\<lambda>c. (c, map expense_of (debits_in c ts))) bucket_names))"
proof -
  have "distinct (map fst initial_categories)"
    using distinct_bucket_names keys_initial_categories by simp
  from categorize_loop_result [OF this, of ts] show ?thesis
    unfolding categorize_transactions_def keys_initial_categories
    by (simp add: initial_categories_eq comp_def split: option.splits)
qed

lemma categorize_buckets:
  assumes "categorize_transactions ts = Inr cats"
  shows "cats = map (\<lambda>c. (c, map expense_of (debits_in c ts))) bucket_names"
  using assms unfolding categorize_transactions_result by (simp split: option.splits)

lemma categorize_no_failure:
  assumes "categorize_transactions ts = Inr cats"
  shows "\<forall>t \<in> set ts. failure bucket_names t = None"
  using assms unfolding categorize_transactions_result
  by (simp add: first_failure_None split: option.splits)

lemma categorize_loop_filter:
  "categorize_loop cats ts = Inr cats' \<Longrightarrow>
   categorize_loop cats (filter (\<lambda>t. tx_amount t < 0) ts) = Inr cats'"
proof (induction ts arbitrary: cats)
  case Nil
  then show ?case by simp
next
  case (Cons t ts)
  from Cons.prems obtain x where x: "pounds t = Inr x"
    by (cases "pounds t") simp_all
  note sign = pounds_neg [OF x]
  show ?case
  proof (cases "tx_amount t < 0")
    case True
    with Cons x sign show ?thesis by (auto split: sum.splits)
  next
    case False
    with Cons x sign show ?thesis by simp
  qed
qed

text \<open>
  C2. There are inputs on which \<^verbatim>\<open>categorize_transactions\<close> raises a lookup failure
  instead of returning: every input whose amounts all convert to a float and that holds
  a transaction with a negative amount whose formatted category is none of the seven
  keys ends with the \<^verbatim>\<open>KeyError\<close> of such a transaction. The list of a coffee-shop
  debit and a hotel debit tagged \<^verbatim>\<open>holidays\<close> is one such input.
\<close>

theorem unknown_category_raises:
  assumes "t \<in> set transactions" and "tx_amount t < 0"
    and "category_of t \<notin> set bucket_names"
    and "\<forall>u \<in> set transactions. float_of_int (tx_amount u) \<noteq> Inl OverflowError"
  shows "\<exists>u \<in> set transactions. tx_amount u < 0 \<and> category_of u \<notin> set bucket_names \<and>
     categorize_transactions transactions = Inl (KeyError (category_of u))"
proof -
  from assms(1-3) have "first_failure bucket_names transactions \<noteq> None"
    using failure_unknown_debit [of t bucket_names] by (auto simp: first_failure_None)
  then obtain e where e: "first_failure bucket_names transactions = Some e" by blast
  from first_failure_Some [OF this] obtain u
    where u: "u \<in> set transactions" "failure bucket_names u = Some e" by blast
  from failure_cases [OF u(2)] assms(4) u(1)
  have "tx_amount u < 0 \<and> category_of u \<notin> set bucket_names \<and> e = KeyError (category_of u)"
    by blast
  with u(1) e show ?thesis
    by (auto simp: categorize_transactions_result)
qed

theorem unknown_category_raises_witness:
  "hotel \<in> set [coffee_shop, hotel] \<and> tx_amount hotel < 0 \<and>
   category_of hotel \<notin> set bucket_names \<and>
   float_of_int (tx_amount coffee_shop) \<noteq> Inl OverflowError \<and>
   float_of_int (tx_amount hotel) \<noteq> Inl OverflowError \<and>
   categorize_transactions [coffee_shop, hotel] = Inl (KeyError (str ''Holidays''))"
proof -
  have a: "hotel \<in> set [coffee_shop, hotel]" by simp
  have b: "tx_amount hotel < 0" by (simp add: hotel_def)
  have c: "category_of hotel \<notin> set bucket_names"
    by (simp add: hotel_def category_of_def bucket_names_eq string_defs)
  have d1: "float_of_int (tx_amount coffee_shop) \<noteq> Inl OverflowError"
    and d2: "float_of_int (tx_amount hotel) \<noteq> Inl OverflowError"
    by (simp_all add: example_defs)
  then have d: "\<forall>u \<in> set [coffee_shop, hotel]. float_of_int (tx_amount u) \<noteq> Inl OverflowError"
    by simp
  from unknown_category_raises [OF a b c d]
  have "categorize_transactions [coffee_shop, hotel] = Inl (KeyError (category_of hotel))"
    by (auto simp: categorize_defs example_defs)
  with a b c d1 d2 show ?thesis by (simp add: hotel_def category_of_def string_defs)
qed

text \<open>
  C3. A transaction whose amount is zero or positive contributes nothing to a returned
  mapping: the run without all such transactions returns the same mapping, and every
  bucket holds exactly the expenses of the transactions of its category that have a
  negative amount.
\<close>

theorem non_negative_never_bucketed:
  "(categorize_transactions transactions = Inr categories \<longrightarrow>
      categorize_transactions (filter (\<lambda>t. tx_amount t < 0) transactions) = Inr categories) \<and>
   (categorize_transactions transactions = Inr categories \<and> (c, expenses) \<in> set categories
      \<longrightarrow> expenses = map expense_of (debits_in c transactions) \<and>
          (\<forall>t \<in> set (debits_in c transactions). tx_amount t < 0))"
proof -
  have "categorize_transactions (filter (\<lambda>t. tx_amount t < 0) transactions) = Inr categories"
    if "categorize_transactions transactions = Inr categories"
    using that unfolding categorize_transactions_def by (rule categorize_loop_filter)
  moreover have "expenses = map expense_of (debits_in c transactions)"
    if "categorize_transactions transactions = Inr categories" "(c, expenses) \<in> set categories"
    using categorize_buckets [OF that(1)] that(2) by auto
  moreover have "\<forall>t \<in> set (debits_in c transactions). tx_amount t < 0"
    by (simp add: debits_in_def)
  ultimately show ?thesis by blast
qed

theorem non_negative_never_bucketed_witness:
  "categorize_transactions [salary, coffee_shop] =
     Inr (dict_set initial_categories (str ''Eating Out'')
            [\<lparr>description = str ''Coffee Shop'', amount = Finite 5\<rparr>]) \<and>
   categorize_transactions [coffee_shop] =
     Inr (dict_set initial_categories (str ''Eating Out'')
            [\<lparr>description = str ''Coffee Shop'', amount = Finite 5\<rparr>]) \<and>
   (str ''Eating Out'', [\<lparr>description = str ''Coffee Shop'', amount = Finite 5\<rparr>])
     \<in> set (dict_set initial_categories (str ''Eating Out'')
            [\<lparr>description = str ''Coffee Shop'', amount = Finite 5\<rparr>]) \<and>
   [\<lparr>description = str ''Coffee Shop'', amount = Finite 5\<rparr>] =
     map expense_of (debits_in (str ''Eating Out'') [salary, coffee_shop])"
proof -
  let ?e = "\<lparr>description = str ''Coffee Shop'', amount = Finite 5\<rparr>"
  let ?cats = "dict_set initial_categories (str ''Eating Out'') [?e]"
  have run: "categorize_transactions [salary, coffee_shop] = Inr ?cats"
    by (simp add: categorize_defs example_defs)
  have mem: "(str ''Eating Out'', [?e]) \<in> set ?cats"
    by (simp add: initial_categories_eq bucket_names_eq)
  have flt: "filter (\<lambda>t. tx_amount t < 0) [salary, coffee_shop] = [coffee_shop]"
    by (simp add: example_defs)
  note fact = non_negative_never_bucketed
    [of "[salary, coffee_shop]" ?cats "str ''Eating Out''" "[?e]"]
  from fact run have eq: "categorize_transactions [coffee_shop] = Inr ?cats"
    unfolding flt by blast
  from fact run mem
  have ex: "[?e] = map expense_of (debits_in (str ''Eating Out'') [salary, coffee_shop])"
    by blast
  from eq run mem ex show ?thesis by blast
qed

text \<open>
  C6. In a returned mapping, the \<open>i\<close>-th expense of a bucket belongs to the \<open>i\<close>-th
  debit of that category, and its description is the first 18 characters of the
  description of that transaction: of length 18 when the description is longer than 18
  characters, and the description itself when it is not.
\<close>

theorem description_truncated:
  assumes "categorize_transactions transactions = Inr categories"
    and "(c, expenses) \<in> set categories" and "i < length expenses"
  shows "i < length (debits_in c transactions) \<and>
    (\<forall>d. tx_description (debits_in c transactions ! i) = Some d \<longrightarrow>
       description (expenses ! i) = take 18 d \<and>
       (18 < length d \<longrightarrow> length (description (expenses ! i)) = 18) \<and>
       (length d \<le> 18 \<longrightarrow> description (expenses ! i) = d))"
proof -
  from categorize_buckets [OF assms(1)] assms(2)
  have "expenses = map expense_of (debits_in c transactions)" by auto
  with assms(3) show ?thesis by (auto simp: expense_of_def expense_record_def)
qed

theorem description_truncated_witness:
  "categorize_transactions [amazon, coffee_shop] =
     Inr (dict_set
            (dict_set initial_categories (str ''Shopping'')
               [\<lparr>description = str ''Amazon Marketplace'', amount = Finite (41 / 2)\<rparr>])
            (str ''Eating Out'') [\<lparr>description = str ''Coffee Shop'', amount = Finite 5\<rparr>]) \<and>
   tx_description (debits_in (str ''Shopping'') [amazon, coffee_shop] ! 0) =
     Some (str ''Amazon Marketplace Payments UK'') \<and>
   18 < length (str ''Amazon Marketplace Payments UK'') \<and>
   description ([\<lparr>description = str ''Amazon Marketplace'', amount = Finite (41 / 2)\<rparr>] ! 0) =
     take 18 (str ''Amazon Marketplace Payments UK'') \<and>
   length (description
     ([\<lparr>description = str ''Amazon Marketplace'', amount = Finite (41 / 2)\<rparr>] ! 0)) = 18"
proof -
  let ?a = "\<lparr>description = str ''Amazon Marketplace'', amount = Finite (41 / 2)\<rparr>"
  let ?e = "\<lparr>description = str ''Coffee Shop'', amount = Finite 5\<rparr>"
  let ?cats = "dict_set (dict_set initial_categories (str ''Shopping'') [?a])
     (str ''Eating Out'') [?e]"
  have run: "categorize_transactions [amazon, coffee_shop] = Inr ?cats"
    by (simp add: categorize_defs example_defs)
  have mem: "(str ''Shopping'', [?a]) \<in> set ?cats"
    by (simp add: initial_categories_eq bucket_names_eq str_def)
  have i: "0 < length [?a]" by simp
  have d: "debits_in (str ''Shopping'') [amazon, coffee_shop] = [amazon]"
    by (simp add: debits_in_def example_defs category_of_def string_defs)
  have td: "tx_description (debits_in (str ''Shopping'') [amazon, coffee_shop] ! 0) =
      Some (str ''Amazon Marketplace Payments UK'')"
    unfolding d by (simp add: amazon_def)
  have long: "18 < length (str ''Amazon Marketplace Payments UK'')"
    by (simp add: str_def)
  from description_truncated [OF run mem i] td long
  have "description ([?a] ! 0) = take 18 (str ''Amazon Marketplace Payments UK'') \<and>
      length (description ([?a] ! 0)) = 18"
    by blast
  with run td long show ?thesis by blast
qed



subsection \<open>Sums in double precision\<close>

text \<open>
  Below \<open>2\<^sup>3\<^sup>0\<close> an addition of non-negative doubles is off by at most \<open>2\<^sup>-\<^sup>2\<^sup>4\<close>, so a
  sum of \<open>n\<close> of them is off by at most \<open>n\<close> times that.
\<close>

lemma float_accumulate_close:
  assumes "\<forall>x \<in> set vs. 0 \<le> x" and "0 \<le> s"
    and "s + sum_list vs + of_nat (length vs) / 2 ^ 24 < 2 ^ 30"
  shows "\<exists>r. fold (\<lambda>x total. float_add total x) (map Finite vs) (Finite s) = Finite r \<and>
     0 \<le> r \<and> \<bar>r - (s + sum_list vs)\<bar> \<le> of_nat (length vs) / 2 ^ 24"
  using assms
proof (induction vs arbitrary: s)
  case Nil
  then show ?case by simp
next
  case (Cons v vs)
  from Cons.prems have v: "0 \<le> v" and vs: "\<forall>x \<in> set vs. 0 \<le> x" by simp_all
  have rest: "0 \<le> sum_list vs" using vs by (simp add: sum_list_nonneg)
  have extra: "(0::rat) \<le> of_nat (length vs) / 2 ^ 24" by simp
  have bound: "s + v + sum_list vs + (of_nat (length vs) + 1) / 2 ^ 24 < 2 ^ 30"
    using Cons.prems(3) by (simp add: ac_simps)
  have "(0::rat) \<le> (of_nat (length vs) + 1) / 2 ^ 24" by simp
  with bound rest have "s + v < 2 ^ 30" by linarith
  with Cons.prems(2) v obtain r where r: "round_double (s + v) = Finite r" "0 \<le> r"
    "\<bar>r - (s + v)\<bar> \<le> 1 / 2 ^ 24"
    using round_double_close [of "s + v"] by auto
  have "(of_nat (length vs) + 1) / 2 ^ 24 = of_nat (length vs) / 2 ^ 24 + 1 / (2::rat) ^ 24"
    by (simp add: add_divide_distrib)
  with bound r(3) have "r + sum_list vs + of_nat (length vs) / 2 ^ 24 < 2 ^ 30"
    by linarith
  from Cons.IH [OF vs r(2) this] obtain r' where
    r': "fold (\<lambda>x total. float_add total x) (map Finite vs) (Finite r) = Finite r'"
      "0 \<le> r'" "\<bar>r' - (r + sum_list vs)\<bar> \<le> of_nat (length vs) / 2 ^ 24"
    by blast
  have "\<bar>r' - (s + sum_list (v # vs))\<bar> \<le> of_nat (length (v # vs)) / 2 ^ 24"
  proof -
    have "\<bar>r' - (s + v + sum_list vs)\<bar> \<le> of_nat (length vs) / 2 ^ 24 + 1 / 2 ^ 24"
      using r'(3) r(3) by linarith
    then show ?thesis by (simp add: add_divide_distrib ac_simps)
  qed
  with r' r(1) show ?case by simp
qed

lemma plain_amounts_map:
  "plain_amounts es \<Longrightarrow> map amount es = map Finite (map (\<lambda>e. float_value (amount e)) es)"
  by (induction es) (auto simp: plain_amounts_def)

lemma plain_amounts_nonneg:
  "plain_amounts es \<Longrightarrow> \<forall>x \<in> set (map (\<lambda>e. float_value (amount e)) es). 0 \<le> x"
  by (auto simp: plain_amounts_def)

lemma float_sum_close:
  assumes "plain_amounts es"
    and "(\<Sum>e \<leftarrow> es. float_value (amount e)) + of_nat (length es) / 2 ^ 24 < 2 ^ 30"
  shows "\<exists>r. float_sum (map amount es) = Finite r \<and> 0 \<le> r \<and>
     \<bar>r - (\<Sum>e \<leftarrow> es. float_value (amount e))\<bar> \<le> of_nat (length es) / 2 ^ 24"
  using float_accumulate_close [OF plain_amounts_nonneg [OF assms(1)], of 0] assms(2)
  by (simp add: float_sum_def plain_amounts_map [OF assms(1)])

text \<open>The grand total of the report against the exact sum of all amounts.\<close>

lemma fold_add_transaction:
  "fold add_transaction es (ds, as, acc) =
     (ds @ map (\<lambda>e. Text (description e)) es, as @ map (\<lambda>e. Number (amount e)) es,
      fold (\<lambda>x total. float_add total x) (map amount es) acc)"
  by (induction es arbitrary: ds as acc) (simp_all add: add_transaction_def)

lemma category_entry_eq:
  "category_entry (category, expenses) =
     (\<lparr>Description = map (\<lambda>e. Text (description e)) expenses
          @ [Text (sigma_sign # 32 # category)],
       Amount = map (\<lambda>e. Number (amount e)) expenses
          @ [Text (pound_sign # format_2f (float_sum (map amount expenses)))]\<rparr>,
      float_sum (map amount expenses))"
  by (simp add: category_entry_def fold_add_transaction float_sum_def)

lemma fold_add_category:
  "fold add_category cats (data, acc) =
     (data @ map (\<lambda>item. fst (category_entry item)) cats,
      fold (\<lambda>x total. float_add total x) (map (\<lambda>item. snd (category_entry item)) cats) acc)"
  by (induction cats arbitrary: data acc) (simp_all add: add_category_def split_beta)

lemma all_data_eq: "all_data cats = map (\<lambda>item. fst (category_entry item)) cats"
  by (simp add: all_data_def collect_data_def fold_add_category)

lemma total_expenditure_eq:
  "total_expenditure cats =
     fold (\<lambda>x total. float_add total x)
       (map (\<lambda>item. float_sum (map amount (snd item))) cats) (Finite 0)"
proof -
  have "(\<lambda>item. snd (category_entry item)) = (\<lambda>item. float_sum (map amount (snd item)))"
    by (rule ext) (simp add: category_entry_def fold_add_transaction float_sum_def split_beta)
  then show ?thesis
    by (simp add: total_expenditure_def collect_data_def fold_add_category)
qed

lemma total_expenses_Cons:
  "total_expenses ((c, es) # cats) =
     (\<Sum>e \<leftarrow> es. float_value (amount e)) + total_expenses cats"
  by (simp add: total_expenses_def)

lemma count_expenses_Cons:
  "count_expenses ((c, es) # cats) = length es + count_expenses cats"
  by (simp add: count_expenses_def)

lemma plain_sum_nonneg: "plain_amounts es \<Longrightarrow> 0 \<le> (\<Sum>e \<leftarrow> es. float_value (amount e))"
  by (rule sum_list_nonneg) (auto simp: plain_amounts_def)

lemma total_expenses_nonneg:
  "\<forall>item \<in> set cats. plain_amounts (snd item) \<Longrightarrow> 0 \<le> total_expenses cats"
  unfolding total_expenses_def
  by (rule sum_list_nonneg) (auto simp: plain_sum_nonneg)

lemma subtotals_close:
  assumes "\<forall>item \<in> set cats. plain_amounts (snd item)" and "0 \<le> acc"
    and "acc + total_expenses cats + of_nat (count_expenses cats + length cats) / 2 ^ 24
           < 2 ^ 30"
  shows "\<exists>r. fold (\<lambda>x total. float_add total x)
              (map (\<lambda>item. float_sum (map amount (snd item))) cats) (Finite acc) = Finite r \<and>
     0 \<le> r \<and>
     \<bar>r - (acc + total_expenses cats)\<bar> \<le> of_nat (count_expenses cats + length cats) / 2 ^ 24"
  using assms
proof (induction cats arbitrary: acc)
  case Nil
  then show ?case by (simp add: total_expenses_def count_expenses_def)
next
  case (Cons item cats)
  obtain c es where item: "item = (c, es)" by (cases item)
  define exact where "exact = (\<Sum>e \<leftarrow> es. float_value (amount e))"
  define n :: rat where "n = of_nat (length es)"
  define m :: rat where "m = of_nat (count_expenses cats + length cats)"
  from Cons.prems(1) item have plain: "plain_amounts es"
    and rest: "\<forall>item \<in> set cats. plain_amounts (snd item)" by simp_all
  have nonneg: "0 \<le> exact" "0 \<le> total_expenses cats" "0 \<le> n" "0 \<le> m"
    using plain_sum_nonneg [OF plain] total_expenses_nonneg [OF rest]
    by (simp_all add: exact_def n_def m_def)
  have count: "rat_of_nat (count_expenses (item # cats) + length (item # cats)) = n + m + 1"
    by (simp add: item count_expenses_Cons n_def m_def)
  have bound: "acc + (exact + total_expenses cats) + (n + m + 1) / 2 ^ 24 < 2 ^ 30"
    using Cons.prems(3) unfolding count by (simp add: item total_expenses_Cons exact_def)
  have split: "(n + m + 1) / 2 ^ 24 = n / 2 ^ 24 + m / 2 ^ 24 + 1 / (2::rat) ^ 24"
    by (simp add: add_divide_distrib)
  have parts: "(0::rat) \<le> n / 2 ^ 24" "(0::rat) \<le> m / 2 ^ 24" "(0::rat) \<le> 1 / 2 ^ 24"
    using nonneg by simp_all
  have "exact + n / 2 ^ 24 < 2 ^ 30"
    using bound split parts nonneg Cons.prems(2) by linarith
  from float_sum_close [OF plain this [unfolded exact_def n_def]]
  obtain s where s: "float_sum (map amount es) = Finite s" "0 \<le> s"
      "\<bar>s - exact\<bar> \<le> n / 2 ^ 24"
    unfolding exact_def n_def by blast
  have "acc + s < 2 ^ 30"
    using bound split parts nonneg s(3) by linarith
  with Cons.prems(2) s(2) obtain r where r: "round_double (acc + s) = Finite r" "0 \<le> r"
      "\<bar>r - (acc + s)\<bar> \<le> 1 / 2 ^ 24"
    using round_double_close [of "acc + s"] by auto
  have "r + total_expenses cats + m / 2 ^ 24 < 2 ^ 30"
    using bound split s(3) r(3) by linarith
  from Cons.IH [OF rest r(2) this [unfolded m_def]]
  obtain r' where r': "fold (\<lambda>x total. float_add total x)
        (map (\<lambda>item. float_sum (map amount (snd item))) cats) (Finite r) = Finite r'"
      "0 \<le> r'" "\<bar>r' - (r + total_expenses cats)\<bar> \<le> m / 2 ^ 24"
    unfolding m_def by blast
  have "\<bar>r' - (acc + (exact + total_expenses cats))\<bar> \<le> (n + m + 1) / 2 ^ 24"
    using r'(3) r(3) s(3) unfolding split by linarith
  then have "\<bar>r' - (acc + total_expenses (item # cats))\<bar>
      \<le> of_nat (count_expenses (item # cats) + length (item # cats)) / 2 ^ 24"
    unfolding count by (simp add: item total_expenses_Cons exact_def)
  with r' s(1) r(1) show ?case by (simp add: item)
qed

lemma total_expenditure_close:
  assumes "\<forall>item \<in> set cats. plain_amounts (snd item)"
    and "total_expenses cats + of_nat (count_expenses cats + length cats) / 2 ^ 24 < 2 ^ 30"
  shows "\<exists>r. total_expenditure cats = Finite r \<and> 0 \<le> r \<and>
     \<bar>r - total_expenses cats\<bar> \<le> of_nat (count_expenses cats + length cats) / 2 ^ 24"
  using subtotals_close [OF assms(1), of 0] assms(2)
  by (simp add: total_expenditure_eq)

subsection \<open>The stored amounts against the pence of the input\<close>

lemma stored_amount:
  assumes "tx_amount t < 0" and "\<bar>tx_amount t\<bar> \<le> 10 ^ 11"
  shows "\<exists>v. amount (expense_of t) = Finite v \<and> 0 \<le> v \<and>
     \<bar>v - of_int \<bar>tx_amount t\<bar> / 100\<bar> \<le> 1 / 2 ^ 24"
proof -
  define a where "a = tx_amount t"
  define q :: rat where "q = of_int \<bar>a\<bar> / 100"
  have a: "a < 0" "\<bar>a\<bar> \<le> 10 ^ 11" using assms by (simp_all add: a_def)
  then have "\<bar>a\<bar> < 2 ^ 53" by simp
  then have conv: "round_double (of_int a) = Finite (of_int a)" by (rule round_double_of_int)
  have neg: "rat_of_int a / 100 = - q" using a(1) by (simp add: q_def)
  have "1 \<le> \<bar>a\<bar>" using a(1) by simp
  then have "rat_of_int 1 \<le> of_int \<bar>a\<bar>" by (simp only: of_int_le_iff)
  then have low: "1 / 100 \<le> q" by (simp add: q_def)
  have "rat_of_int \<bar>a\<bar> \<le> of_int (10 ^ 11)" using a(2) by (simp only: of_int_le_iff)
  then have "q \<le> 10 ^ 9" by (simp add: q_def)
  then have high: "q < 2 ^ 30" by simp
  have pos: "0 < q" using low by simp
  have close: "\<bar>double_magnitude q - q\<bar> \<le> 1 / 2 ^ 24"
    using pos high by (rule double_magnitude_close)
  have "(2::rat) powi (- 7) \<le> 1 / 100" by simp
  with low have "2 powi (- 7) \<le> q" by simp
  from double_magnitude_lower [OF this] have mpos: "0 < double_magnitude q"
    using powi_pos [of "- 7"] by linarith
  have "(1::rat) / 2 ^ 24 \<le> 1" by simp
  with close have "double_magnitude q \<le> q + 1" by linarith
  with high have "double_magnitude q < 2 ^ 30 + 1" by simp
  also have "\<dots> < (2::rat) ^ 1024" by simp
  finally have small: "\<not> 2 ^ 1024 \<le> double_magnitude q" by simp
  have "float_div_100 (round_double (of_int a)) = Finite (- double_magnitude q)"
    unfolding conv using pos mpos small by (simp add: neg round_double_neg)
  then have "amount (expense_of t) = Finite (double_magnitude q)"
    using mpos by (simp add: expense_of_def expense_record_def a_def)
  with close mpos show ?thesis by (auto simp: q_def a_def)
qed

lemma debit_pence_nonneg: "0 \<le> debit_pence ts"
  unfolding debit_pence_def by (rule sum_list_nonneg) auto

lemma debit_pence_Cons:
  "debit_pence (t # ts) = (if tx_amount t < 0 then \<bar>tx_amount t\<bar> else 0) + debit_pence ts"
  by (simp add: debit_pence_def)

lemma debit_pence_member:
  "t \<in> set ts \<Longrightarrow> tx_amount t < 0 \<Longrightarrow> \<bar>tx_amount t\<bar> \<le> debit_pence ts"
proof (induction ts)
  case Nil
  then show ?case by simp
next
  case (Cons u ts)
  have "0 \<le> (if tx_amount u < 0 then \<bar>tx_amount u\<bar> else 0)" by simp
  with Cons debit_pence_nonneg [of ts] show ?case
    by (auto simp: debit_pence_Cons)
qed

lemma total_dict_set:
  "map_of d k = Some es \<Longrightarrow>
   total_expenses (dict_set d k (es @ [e])) = total_expenses d + float_value (amount e)"
  by (induction d) (auto simp: total_expenses_def split: if_splits)

lemma count_dict_set:
  "map_of d k = Some es \<Longrightarrow>
   count_expenses (dict_set d k (es @ [e])) = count_expenses d + 1"
  by (induction d) (auto simp: count_expenses_def split: if_splits)

text \<open>
  The loop adds to the buckets one expense for every debit, and to their exact total the
  value of that expense.
\<close>

lemma categorize_loop_total:
  "categorize_loop cats ts = Inr cats' \<Longrightarrow>
   total_expenses cats' =
     total_expenses cats
       + (\<Sum>t \<leftarrow> filter (\<lambda>t. tx_amount t < 0) ts. float_value (amount (expense_of t))) \<and>
   count_expenses cats' = count_expenses cats + length (filter (\<lambda>t. tx_amount t < 0) ts)"
proof (induction ts arbitrary: cats)
  case Nil
  then show ?case by simp
next
  case (Cons t ts)
  from Cons.prems obtain x where x: "pounds t = Inr x"
    by (cases "pounds t") simp_all
  note sign = pounds_neg [OF x]
  note stored = expense_record_pounds [OF x]
  show ?case
  proof (cases "tx_amount t < 0")
    case False
    with Cons x sign show ?thesis by simp
  next
    case True
    with Cons.prems x sign stored obtain es where es: "map_of cats (category_of t) = Some es"
      and run: "categorize_loop (dict_set cats (category_of t) (es @ [expense_of t])) ts
                  = Inr cats'"
      by (auto simp: dict_get_def split: option.splits)
    from Cons.IH [OF run] total_dict_set [OF es, of "expense_of t"]
      count_dict_set [OF es, of "expense_of t"] True
    show ?thesis by simp
  qed
qed

lemma total_initial: "total_expenses initial_categories = 0"
  by (simp add: initial_categories_eq total_expenses_def comp_def)

lemma count_initial: "count_expenses initial_categories = 0"
  by (simp add: initial_categories_eq count_expenses_def comp_def)

lemma stored_sum_close:
  assumes "debit_pence ts \<le> 10 ^ 11"
  shows "\<bar>(\<Sum>t \<leftarrow> filter (\<lambda>t. tx_amount t < 0) ts. float_value (amount (expense_of t)))
            - of_int (debit_pence ts) / 100\<bar>
         \<le> of_nat (length (filter (\<lambda>t. tx_amount t < 0) ts)) / 2 ^ 24"
  using assms
proof (induction ts)
  case Nil
  then show ?case by (simp add: debit_pence_def)
next
  case (Cons t ts)
  have small: "debit_pence ts \<le> 10 ^ 11"
    using Cons.prems by (simp add: debit_pence_Cons split: if_splits)
  note IH = Cons.IH [OF small]
  show ?case
  proof (cases "tx_amount t < 0")
    case False
    with IH show ?thesis by (simp add: debit_pence_Cons)
  next
    case True
    with Cons.prems debit_pence_nonneg [of ts] have "\<bar>tx_amount t\<bar> \<le> 10 ^ 11"
      by (simp add: debit_pence_Cons)
    from stored_amount [OF True this] obtain v where
      v: "amount (expense_of t) = Finite v"
        "\<bar>v - of_int \<bar>tx_amount t\<bar> / 100\<bar> \<le> 1 / 2 ^ 24"
      by blast
    define S where "S = (\<Sum>t \<leftarrow> filter (\<lambda>t. tx_amount t < 0) ts.
        float_value (amount (expense_of t)))"
    define n :: rat where "n = of_nat (length (filter (\<lambda>t. tx_amount t < 0) ts))"
    have pence: "rat_of_int (debit_pence (t # ts)) / 100 =
        of_int \<bar>tx_amount t\<bar> / 100 + of_int (debit_pence ts) / 100"
      using True by (simp add: debit_pence_Cons add_divide_distrib)
    have count: "rat_of_nat (length (filter (\<lambda>t. tx_amount t < 0) (t # ts))) / 2 ^ 24 =
        n / 2 ^ 24 + 1 / 2 ^ 24"
      using True by (simp add: n_def add_divide_distrib)
    have "\<bar>v + S - (of_int \<bar>tx_amount t\<bar> / 100 + of_int (debit_pence ts) / 100)\<bar>
        \<le> n / 2 ^ 24 + 1 / 2 ^ 24"
      using IH v(2) unfolding S_def n_def by linarith
    then show ?thesis
      unfolding pence count using True v(1) by (simp add: S_def)
  qed
qed

lemma categorize_plain:
  assumes "categorize_transactions ts = Inr cats" and "debit_pence ts \<le> 10 ^ 11"
  shows "\<forall>item \<in> set cats. plain_amounts (snd item)"
proof -
  have "\<exists>v. amount (expense_of t) = Finite v \<and> 0 \<le> v" if "t \<in> set (debits_in c ts)" for t c
  proof -
    from that have t: "t \<in> set ts" "tx_amount t < 0" by (simp_all add: debits_in_def)
    from debit_pence_member [OF this] assms(2) have "\<bar>tx_amount t\<bar> \<le> 10 ^ 11" by simp
    from stored_amount [OF t(2) this] show ?thesis by blast
  qed
  then show ?thesis
    unfolding categorize_buckets [OF assms(1)] by (auto simp: plain_amounts_def)
qed

lemma round_double_zero [simp]: "round_double 0 = Finite 0"
  by (simp add: round_double_def)

lemma double_magnitude_large: "double_magnitude 100000000000000001 = 100000000000000000"
proof -
  have "ilog2 100000000000000001 = 56"
    by (rule ilog2_unique) simp_all
  moreover have "round_half_even (100000000000000001 / 2 powi 4) = 6250000000000000"
    by (rule round_half_even_near) simp
  ultimately show ?thesis
    by (simp add: double_magnitude_def)
qed

lemma pounds_large_debit: "pounds large_debit = Inr (Finite (- 1000000000000000))"
proof -
  have "round_double (- 100000000000000001) = Finite (- 100000000000000000)"
    by (simp add: round_double_neg double_magnitude_large)
  then show ?thesis
    by (simp add: pounds_def large_debit_def float_of_int_def)
qed

lemma format_large:
  "format_fixed2 1000000000000000 = str ''1000000000000000.00''"
  "format_fixed2 (100000000000000001 / 100) = str ''1000000000000000.01''"
  using format_fixed2_hundredths [of 100000000000000000]
    format_fixed2_hundredths [of 100000000000000001]
  by (simp_all add: digits_small digits_large str_def)

text \<open>
  C1. For every input on which \<^verbatim>\<open>categorize_transactions\<close> returns and whose negative
  amounts are at most 10 000 in number and at most 100 000 000 000 pence in total, the
  sum of all expense amounts of all buckets, written with two decimals, is the sum of the
  absolute values of the negative \<^verbatim>\<open>amount\<close> fields divided by 100, written with two
  decimals. This holds of the grand total that the report adds up in double precision
  and of the exact sum of the stored doubles.
\<close>

theorem categorize_transactions_total:
  assumes "categorize_transactions transactions = Inr categories"
    and "debit_pence transactions \<le> 10 ^ 11"
    and "length (filter (\<lambda>t. tx_amount t < 0) transactions) \<le> 10000"
  shows "format_2f (total_expenditure categories) =
       format_fixed2 (of_int (debit_pence transactions) / 100) \<and>
     format_fixed2 (total_expenses categories) =
       format_fixed2 (of_int (debit_pence transactions) / 100)"
proof -
  define n :: rat where "n = of_nat (length (filter (\<lambda>t. tx_amount t < 0) transactions))"
  define D :: rat where "D = of_int (debit_pence transactions) / 100"
  define E where "E = total_expenses categories"
  have eps: "(1::rat) / 2 ^ 24 = 1 / 16777216" by simp
  have n: "0 \<le> n" "n \<le> 10000"
    using assms(3) by (simp_all add: n_def)
  have "rat_of_int (debit_pence transactions) \<le> of_int (10 ^ 11)"
    using assms(2) by (simp only: of_int_le_iff)
  then have D: "D \<le> 1000000000" by (simp add: D_def)
  from categorize_loop_total [OF assms(1) [unfolded categorize_transactions_def]]
  have E_sum: "E = (\<Sum>t \<leftarrow> filter (\<lambda>t. tx_amount t < 0) transactions.
        float_value (amount (expense_of t)))"
    and count: "count_expenses categories = length (filter (\<lambda>t. tx_amount t < 0) transactions)"
    by (simp_all add: total_initial count_initial E_def)
  have E_close: "\<bar>E - D\<bar> \<le> n / 2 ^ 24"
    using stored_sum_close [OF assms(2)] by (simp add: E_sum D_def n_def)
  have plain: "\<forall>item \<in> set categories. plain_amounts (snd item)"
    using assms(1,2) by (rule categorize_plain)
  have E_nonneg: "0 \<le> E"
    unfolding E_def using plain by (rule total_expenses_nonneg)
  have "length categories = 7"
    by (simp add: categorize_buckets [OF assms(1)] bucket_names_eq)
  then have m: "rat_of_nat (count_expenses categories + length categories) = n + 7"
    by (simp add: count n_def)
  have split: "(n + 7) / 2 ^ 24 = n / 2 ^ 24 + 7 / (2::rat) ^ 24"
    by (simp add: add_divide_distrib)
  have n_eps: "n / 2 ^ 24 \<le> 10000 / (2::rat) ^ 24"
    using n(2) by (simp add: divide_right_mono)
  have c1: "(10000::rat) / 2 ^ 24 < 1 / 1000" and c2: "(7::rat) / 2 ^ 24 < 1 / 1000"
    and c3: "(2::rat) ^ 30 = 1073741824"
    by simp_all
  have "E + (n + 7) / 2 ^ 24 < 2 ^ 30"
    using E_close D n_eps c1 c2 unfolding split c3 by linarith
  with total_expenditure_close [OF plain] m
  obtain r where r: "total_expenditure categories = Finite r" "0 \<le> r"
      "\<bar>r - E\<bar> \<le> (n + 7) / 2 ^ 24"
    by (auto simp: E_def)
  have "\<bar>r - D\<bar> < 1 / 200"
    using r(3) E_close n_eps c1 c2 unfolding split by linarith
  with r(2) debit_pence_nonneg [of transactions]
  have "format_fixed2 r = format_fixed2 (of_int (debit_pence transactions) / 100)"
    by (intro format_fixed2_near) (simp_all add: D_def)
  moreover have "\<bar>E - D\<bar> < 1 / 200"
    using E_close n_eps c1 by linarith
  with E_nonneg debit_pence_nonneg [of transactions]
  have "format_fixed2 E = format_fixed2 (of_int (debit_pence transactions) / 100)"
    by (intro format_fixed2_near) (simp_all add: D_def)
  ultimately show ?thesis by (simp add: r(1) E_def)
qed

theorem categorize_transactions_total_witness:
  "categorize_transactions [coffee_shop, salary] =
     Inr (dict_set initial_categories (str ''Eating Out'')
            [\<lparr>description = str ''Coffee Shop'', amount = Finite 5\<rparr>]) \<and>
   debit_pence [coffee_shop, salary] = 500 \<and>
   length (filter (\<lambda>t. tx_amount t < 0) [coffee_shop, salary]) = 1 \<and>
   format_2f (total_expenditure (dict_set initial_categories (str ''Eating Out'')
            [\<lparr>description = str ''Coffee Shop'', amount = Finite 5\<rparr>])) = str ''5.00''"
proof -
  let ?cats = "dict_set initial_categories (str ''Eating Out'')
            [\<lparr>description = str ''Coffee Shop'', amount = Finite 5\<rparr>]"
  have run: "categorize_transactions [coffee_shop, salary] = Inr ?cats"
    by (simp add: categorize_defs example_defs)
  have pence: "debit_pence [coffee_shop, salary] = 500"
    by (simp add: debit_pence_def example_defs)
  have count: "length (filter (\<lambda>t. tx_amount t < 0) [coffee_shop, salary]) = 1"
    by (simp add: example_defs)
  have shown: "format_fixed2 (of_int 500 / 100) = str ''5.00''"
    unfolding format_fixed2_hundredths by (simp add: digits_small str_def)
  from categorize_transactions_total [OF run] pence count
  have "format_2f (total_expenditure ?cats) = format_fixed2 (of_int 500 / 100)"
    by simp
  with run pence count shown show ?thesis by simp
qed

theorem categorize_transactions_total_counterexample:
  "categorize_transactions [large_debit] =
     Inr (dict_set initial_categories (str ''Shopping'')
            [\<lparr>description = str ''Yacht'', amount = Finite 1000000000000000\<rparr>]) \<and>
   total_expenses (dict_set initial_categories (str ''Shopping'')
            [\<lparr>description = str ''Yacht'', amount = Finite 1000000000000000\<rparr>]) =
     1000000000000000 \<and>
   rat_of_int (debit_pence [large_debit]) / 100 = 100000000000000001 / 100 \<and>
   format_2f (total_expenditure (dict_set initial_categories (str ''Shopping'')
            [\<lparr>description = str ''Yacht'', amount = Finite 1000000000000000\<rparr>])) =
     str ''1000000000000000.00'' \<and>
   format_fixed2 (of_int (debit_pence [large_debit]) / 100) = str ''1000000000000000.01'' \<and>
   format_2f (total_expenditure (dict_set initial_categories (str ''Shopping'')
            [\<lparr>description = str ''Yacht'', amount = Finite 1000000000000000\<rparr>])) \<noteq>
     format_fixed2 (of_int (debit_pence [large_debit]) / 100)"
proof -
  let ?cats = "dict_set initial_categories (str ''Shopping'')
            [\<lparr>description = str ''Yacht'', amount = Finite 1000000000000000\<rparr>]"
  have category: "category_of large_debit = str ''Shopping''"
    by (simp add: large_debit_def category_of_def string_defs)
  have run: "categorize_transactions [large_debit] = Inr ?cats"
    by (simp add: categorize_transactions_def pounds_large_debit category
        initial_categories_eq bucket_names_eq dict_get_def expense_record_def)
       (simp add: large_debit_def str_def)
  have exact: "total_expenses ?cats = 1000000000000000"
    by (simp add: total_expenses_def initial_categories_eq bucket_names_eq str_def)
  have pence: "rat_of_int (debit_pence [large_debit]) / 100 = 100000000000000001 / 100"
    by (simp add: debit_pence_def large_debit_def)
  have total: "total_expenditure ?cats = Finite 1000000000000000"
    by (simp add: total_expenditure_eq float_sum_def initial_categories_eq bucket_names_eq
        str_def)
  have left: "format_2f (total_expenditure ?cats) = str ''1000000000000000.00''"
    unfolding total by (simp add: format_large)
  have right: "format_fixed2 (of_int (debit_pence [large_debit]) / 100) =
      str ''1000000000000000.01''"
    unfolding pence by (rule format_large)
  have "str ''1000000000000000.00'' \<noteq> str ''1000000000000000.01''"
    by (simp add: str_def)
  with run exact pence left right show ?thesis by simp
qed

section \<open>Properties of the report builder\<close>

lemma length_Description [simp]:
  "length (Description (fst (category_entry item))) = length (snd item) + 1"
  by (cases item) (simp add: category_entry_eq)

lemma length_Amount [simp]:
  "length (Amount (fst (category_entry item))) = length (snd item) + 1"
  by (cases item) (simp add: category_entry_eq)

lemma length_all_columns: "length (all_columns cats) = 2 * length cats"
  by (induction cats) (simp_all add: all_columns_def)

lemma length_data_row: "length (data_row data (2 * length data) i) = 2 * length data"
proof -
  have "length (concat (map (\<lambda>category_data.
                  [if i < length (Description category_data)
                   then Description category_data ! i else Text [],
                   if i < length (Amount category_data)
                   then Amount category_data ! i else Text []]) data)) = 2 * length data"
    by (induction data) simp_all
  then show ?thesis by (simp add: data_row_def Let_def)
qed

lemma fill_rows_eq:
  "length (columns df) = 2 * length data \<Longrightarrow>
   fill_rows data indices df =
     Inr (df\<lparr>rows := rows df @ map (data_row data (2 * length data)) indices\<rparr>)"
  by (induction indices arbitrary: df) (simp_all add: loc_set_def length_data_row)

lemma fold_max: "fold max xs (x::nat) = Max (set (x # xs))"
  by (simp only: Max.set_eq_fold)

lemma py_max_eq: "xs \<noteq> [] \<Longrightarrow> py_max xs = Inr (Max (set xs))"
  by (cases xs) (simp_all add: py_max_def fold_max del: set_simps)

lemma length_total_row: "cats \<noteq> [] \<Longrightarrow> length (total_row cats) = 2 * length cats"
  by (cases cats) (simp_all add: total_row_def length_all_columns)

lemma max_rows_eq:
  "cats \<noteq> [] \<Longrightarrow>
   max_rows cats = Inr (Max (set (map (\<lambda>item. length (snd item) + 1) cats)))"
  by (simp add: max_rows_def all_data_eq py_max_eq comp_def)

lemma report_grid_eq:
  assumes "cats \<noteq> []"
  shows "report_grid cats =
     Inr \<lparr>columns = all_columns cats,
          rows = map (data_row (all_data cats) (2 * length cats))
                   [0 ..< Max (set (map (\<lambda>item. length (snd item) + 1) cats))]
                 @ [total_row cats]\<rparr>"
proof -
  have width: "length (columns \<lparr>columns = all_columns cats, rows = []\<rparr>) =
      2 * length (all_data cats)"
    by (simp add: length_all_columns all_data_eq)
  have data: "length (all_data cats) = length cats"
    by (simp add: all_data_eq)
  show ?thesis
    unfolding report_grid_def
    by (simp add: max_rows_eq [OF assms] fill_rows_eq [OF width] data loc_set_def
        length_total_row [OF assms] length_all_columns)
qed

text \<open>
  C4. For a mapping whose keys are the seven names of the enumeration, whatever its
  buckets hold and also when all are empty, the report builder succeeds and its grid has
  \<open>2 \<times> 7\<close> columns and one row more than the longest category, a category counting
  its expenses and its subtotal entry; every row has the width of the grid and the last
  row is the grand-total row.
\<close>

theorem report_grid_shape:
  assumes "map fst categories = bucket_names"
  shows "\<exists>df. report_grid categories = Inr df \<and>
     length categories = 7 \<and>
     length (columns df) = 2 * length categories \<and>
     length (rows df) = Max (set (map (\<lambda>item. length (snd item) + 1) categories)) + 1 \<and>
     (\<forall>row \<in> set (rows df). length row = 2 * length categories) \<and>
     last (rows df) = total_row categories"
proof -
  from assms have "length (map fst categories) = 7"
    by (simp add: bucket_names_eq)
  then have count: "length categories = 7" by simp
  then have nonempty: "categories \<noteq> []" by auto
  have data: "length (all_data categories) = length categories"
    by (simp add: all_data_eq)
  have "\<forall>row \<in> set (map (data_row (all_data categories) (2 * length categories))
      [0 ..< Max (set (map (\<lambda>item. length (snd item) + 1) categories))]
      @ [total_row categories]). length row = 2 * length categories"
    using length_data_row [of "all_data categories"] length_total_row [OF nonempty]
    by (auto simp: data)
  with count show ?thesis
    by (simp add: report_grid_eq [OF nonempty] length_all_columns)
qed

theorem report_grid_shape_witness:
  "map fst initial_categories = bucket_names \<and>
   (\<exists>df. report_grid initial_categories = Inr df \<and> length (columns df) = 14 \<and>
      length (rows df) = 2)"
proof -
  have keys: "map fst initial_categories = bucket_names"
    by (simp add: initial_categories_eq comp_def)
  have "Max (set (map (\<lambda>item. length (snd item) + 1) initial_categories)) = 1"
    by (simp add: initial_categories_eq bucket_names_eq comp_def)
  with report_grid_shape [OF keys] keys show ?thesis by auto
qed



text \<open>
  The subtotal is a sum of doubles: \<open>2\<^sup>5\<^sup>3\<close> pounds and one pound add up to \<open>2\<^sup>5\<^sup>3\<close>
  pounds, the tie going to the even significand.
\<close>

lemma subtotal_rounds_to_even:
  "float_sum [Finite 9007199254740992, Finite 1] = Finite 9007199254740992"
proof -
  have "ilog2 9007199254740993 = 53"
    by (rule ilog2_unique) simp_all
  moreover have "round_half_even (9007199254740993 / 2 powi 1) = 4503599627370496"
  proof -
    have "\<lfloor>(9007199254740993::rat) / 2\<rfloor> = 4503599627370496"
      by (simp add: floor_eq_iff)
    then show ?thesis by (simp add: round_half_even_def)
  qed
  ultimately have "double_magnitude 9007199254740993 = 9007199254740992"
    by (simp add: double_magnitude_def)
  then have sum: "round_double 9007199254740993 = Finite 9007199254740992"
    by (simp add: round_double_pos)
  have "double_magnitude 9007199254740992 = 9007199254740992"
    using double_magnitude_exact [of "2 ^ 52" 1] by simp
  then have first: "round_double 9007199254740992 = Finite 9007199254740992"
    by (simp add: round_double_pos)
  show ?thesis
    by (simp add: float_sum_def first sum)
qed

section \<open>Properties of \<^verbatim>\<open>fetch_transactions\<close> and \<^verbatim>\<open>main\<close>\<close>

lemma test_authentication_prints:
  "test_authentication response = (out, r) \<Longrightarrow> \<forall>event \<in> set out. is_print event"
  by (auto simp: test_authentication_def split: if_splits sum.splits)

lemma fetch_transactions_prints:
  "fetch_transactions response = (out, r) \<Longrightarrow> \<forall>event \<in> set out. is_print event"
  by (auto simp: fetch_transactions_def split: if_splits sum.splits)

text \<open>
  C7. On a response whose status is not 200, \<^verbatim>\<open>fetch_transactions\<close> prints the error
  line and returns the empty list without raising. On a response of status 200 whose body
  is a JSON object it prints nothing and returns the list stored under
  \<^verbatim>\<open>transactions\<close>, or the empty list when the object has no such field.
\<close>

theorem fetch_transactions_outcome:
  "(status_code response \<noteq> 200 \<longrightarrow>
      fetch_transactions response =
        ([Print (str ''Error fetching transactions: '' @ str_int (status_code response))],
         Inr [])) \<and>
   (status_code response = 200 \<and> json response = Inr data \<longrightarrow>
      (\<forall>transactions. data (str ''transactions'') = Some transactions \<longrightarrow>
         fetch_transactions response = ([], Inr transactions)) \<and>
      (data (str ''transactions'') = None \<longrightarrow>
         fetch_transactions response = ([], Inr [])))"
  by (simp add: fetch_transactions_def)

theorem fetch_transactions_outcome_witness:
  "fetch_transactions \<lparr>status_code = 500, json = Inl JSONDecodeError\<rparr> =
     ([Print (str ''Error fetching transactions: 500'')], Inr []) \<and>
   fetch_transactions
     \<lparr>status_code = 200, json = Inr [str ''transactions'' \<mapsto> [coffee_shop, salary]]\<rparr> =
     ([], Inr [coffee_shop, salary]) \<and>
   fetch_transactions \<lparr>status_code = 200, json = Inr Map.empty\<rparr> = ([], Inr [])"
proof -
  note failed = fetch_transactions_outcome
    [of "\<lparr>status_code = 500, json = Inl JSONDecodeError\<rparr>" Map.empty]
  note found = fetch_transactions_outcome
    [of "\<lparr>status_code = 200, json = Inr [str ''transactions'' \<mapsto> [coffee_shop, salary]]\<rparr>"
        "[str ''transactions'' \<mapsto> [coffee_shop, salary]]"]
  note absent = fetch_transactions_outcome
    [of "\<lparr>status_code = 200, json = Inr Map.empty\<rparr>" Map.empty]
  have a: "fetch_transactions \<lparr>status_code = 500, json = Inl JSONDecodeError\<rparr> =
     ([Print (str ''Error fetching transactions: 500'')], Inr [])"
    using failed by (simp add: str_int_500 str_def)
  have b: "fetch_transactions
     \<lparr>status_code = 200, json = Inr [str ''transactions'' \<mapsto> [coffee_shop, salary]]\<rparr> =
     ([], Inr [coffee_shop, salary])"
    using found by simp
  have c: "fetch_transactions \<lparr>status_code = 200, json = Inr Map.empty\<rparr> = ([], Inr [])"
    using absent by simp
  from a b c show ?thesis by blast
qed

text \<open>With a non-empty fetch result that can be categorized, the workbook is written.\<close>

lemma main_writes_report:
  assumes "test_authentication (whoami env) = (out1, Inr ())"
    and "fetch_transactions (listing env) = (out2, Inr transactions)"
    and "transactions \<noteq> []"
    and "categorize_transactions transactions = Inr categories"
  shows "\<exists>df. report_grid categories = Inr df \<and>
     To_excel excel_filename (str ''Transactions'') df \<in> set (fst (main env))"
proof -
  from categorize_buckets [OF assms(4)] have "categories \<noteq> []"
    by (simp add: bucket_names_eq)
  from report_grid_eq [OF this] obtain df where df: "report_grid categories = Inr df"
    by blast
  have "To_excel excel_filename (str ''Transactions'') df \<in> set (fst (main env))"
    using assms df
    by (simp add: main_def then_run_def save_to_excel_def split: prod.splits)
  with df show ?thesis by blast
qed

text \<open>
  C8. In a run that reaches \<^verbatim>\<open>fetch_transactions\<close> and gets the empty list from it,
  \<^verbatim>\<open>main\<close> prints the message that there are no transactions and ends normally; all
  its effects are printed lines, so nothing is categorized, no workbook is written or
  saved and no file is opened.
\<close>

theorem main_stops_without_transactions:
  assumes "test_authentication (whoami env) = (out1, Inr ())"
    and "fetch_transactions (listing env) = (out2, Inr [])"
  shows "main env = (out1 @ out2 @ [Print (str ''No transactions found.'')], Inr ()) \<and>
     (\<forall>event \<in> set (fst (main env)). is_print event)"
proof -
  have run: "main env = (out1 @ out2 @ [Print (str ''No transactions found.'')], Inr ())"
    using assms by (simp add: main_def then_run_def)
  moreover have "\<forall>event \<in> set (out1 @ out2 @ [Print (str ''No transactions found.'')]).
      is_print event"
    using test_authentication_prints [OF assms(1)] fetch_transactions_prints [OF assms(2)]
    by auto
  ultimately show ?thesis by simp
qed

theorem main_stops_without_transactions_witness:
  "test_authentication \<lparr>status_code = 200, json = Inl JSONDecodeError\<rparr> =
     ([Print (str ''Authentication successful.'')], Inr ()) \<and>
   fetch_transactions \<lparr>status_code = 500, json = Inl JSONDecodeError\<rparr> =
     ([Print (str ''Error fetching transactions: 500'')], Inr []) \<and>
   main \<lparr>whoami = \<lparr>status_code = 200, json = Inl JSONDecodeError\<rparr>,
         listing = \<lparr>status_code = 500, json = Inl JSONDecodeError\<rparr>,
         os_name = str ''posix''\<rparr> =
     ([Print (str ''Authentication successful.''),
       Print (str ''Error fetching transactions: 500''),
       Print (str ''No transactions found.'')], Inr ())"
proof -
  let ?env = "\<lparr>whoami = \<lparr>status_code = 200, json = Inl JSONDecodeError\<rparr>,
         listing = \<lparr>status_code = 500, json = Inl JSONDecodeError\<rparr>,
         os_name = str ''posix''\<rparr>"
  have a: "test_authentication (whoami ?env) =
     ([Print (str ''Authentication successful.'')], Inr ())"
    by (simp add: test_authentication_def)
  have b: "fetch_transactions (listing ?env) =
     ([Print (str ''Error fetching transactions: 500'')], Inr [])"
    by (simp add: fetch_transactions_def str_int_500 str_def)
  from main_stops_without_transactions [OF a b] a b show ?thesis by simp
qed

end
